theory Spec2Isabelle
  imports Complex_Main "HOL-Library.Log_Nat"
begin

section \<open>The data generator of the Debezium demo (app/main.py)\<close>

text \<open>
  The program is a single-threaded Python script that talks to a PostgreSQL store
  through psycopg2. Everything the script does beyond computing values is made
  explicit here:
  \<^item> the outside world the script cannot control (what each connection attempt does,
    which driver call fails or is interrupted, what the random sources deliver) is a
    fixed oracle, the record \<open>env\<close>;
  \<^item> everything the script changes (the log, the sleeps, the session, the tables) is
    the record \<open>world\<close>, passed through every function and returned updated;
  \<^item> a raised exception is the left summand of the result, together with the world
    at the moment of the raise.
\<close>

subsection \<open>Exceptions\<close>

text \<open>
  The exception classes that matter to the control flow. \<open>KeyboardInterrupt\<close> derives
  from \<open>BaseException\<close> only; every other one derives from \<open>Exception\<close>.
  \<open>ConnectFailure n s\<close> is the plain \<open>Exception\<close> built by \<open>get_db_connection\<close>
  from \<open>max_retries\<close> and the text of the last operational error.
\<close>

datatype exn =
    OperationalError string
  | ProgrammingError string
  | DatabaseError string
  | IndexError
  | ValueError
  | AttributeError
  | KeyboardInterrupt
  | ConnectFailure nat string
  | OtherException string

fun is_Exception :: "exn \<Rightarrow> bool" where
  "is_Exception KeyboardInterrupt = False"
| "is_Exception _ = True"

fun str_exn :: "exn \<Rightarrow> string" where
  "str_exn (OperationalError s) = s"
| "str_exn (ProgrammingError s) = s"
| "str_exn (DatabaseError s) = s"
| "str_exn IndexError = ''''"
| "str_exn ValueError = ''''"
| "str_exn AttributeError = ''''"
| "str_exn KeyboardInterrupt = ''''"
| "str_exn (ConnectFailure n s) = s"
| "str_exn (OtherException s) = s"

subsection \<open>Log lines and observable events\<close>

text \<open>
  One constructor per log call of the source, carrying the values its f-string
  interpolates. The logger of logger.py is set to level INFO, so a \<open>debug\<close> call
  emits nothing.
\<close>

datatype level = DEBUG | INFO | ERROR | CRITICAL

fun level_no :: "level \<Rightarrow> nat" where
  "level_no DEBUG = 10"
| "level_no INFO = 20"
| "level_no ERROR = 40"
| "level_no CRITICAL = 50"

datatype message =
    Msg_starting
  | Msg_attempting_to_connect
  | Msg_attempt nat nat
  | Msg_connected
  | Msg_connection_failed string
  | Msg_retrying nat
  | Msg_failed_to_connect nat
  | Msg_creating_tables
  | Msg_products_table_ready
  | Msg_sales_table_ready
  | Msg_products_replica_identity
  | Msg_sales_replica_identity
  | Msg_tables_created
  | Msg_inserted_products nat "int list"
  | Msg_inserted_sales nat "int list"
  | Msg_seeding
  | Msg_seeded nat
  | Msg_starting_generation
  | Msg_press_ctrl_c
  | Msg_progress int int int
  | Msg_stopping
  | Msg_error_occurred string
  | Msg_connection_closed
  | Msg_final_stats int int

datatype event =
    Log level message
  | Sleep nat
  | ConnectAttempt

subsection \<open>The store\<close>

text \<open>
  The dictionaries built by \<open>generate_product\<close> and \<open>generate_sale\<close>. A Python float
  is the rational number it denotes (see the section on floats).
\<close>

record product =
  name :: string
  category :: string
  price :: rat
  stock_quantity :: int

record sale =
  product_id :: "int option"
  customer_name :: string
  customer_email :: string
  quantity :: int
  total_amount :: rat

text \<open>
  A table holds its rows in insertion order, each with the identifier drawn from the
  table's SERIAL sequence and the value of its \<open>DEFAULT CURRENT_TIMESTAMP\<close> column
  (\<open>created_at\<close>, \<open>sale_date\<close>), a logical time.
\<close>

record 'r row =
  row_id :: int
  row_time :: nat
  row_data :: 'r

record 'r table =
  rows :: "'r row list"
  next_id :: int
  replica_identity_full :: bool

record database =
  products_tbl :: "product table option"
  sales_tbl :: "sale table option"

definition empty_table :: "'r table" where
  "empty_table = \<lparr>rows = [], next_id = 1, replica_identity_full = False\<rparr>"

definition empty_database :: database where
  "empty_database = \<lparr>products_tbl = None, sales_tbl = None\<rparr>"

subsection \<open>Oracle and state\<close>

record env =
  connect_outcome :: "nat \<Rightarrow> exn option"
  faults :: "nat \<Rightarrow> exn option"
  entropy :: "nat \<Rightarrow> nat"
  fake_catch_phrase :: "nat \<Rightarrow> string"
  fake_name :: "nat \<Rightarrow> string"
  fake_email :: "nat \<Rightarrow> string"

text \<open>
  \<open>connect_outcome env k\<close>: what the \<open>k\<close>-th call of \<open>psycopg2.connect\<close> raises, if
  anything. \<open>faults env k\<close>: what the \<open>k\<close>-th blocking call after that (a statement, a
  fetch, a commit, a sleep) raises, if anything: a database error, or the
  \<open>KeyboardInterrupt\<close> of a signal delivered there. \<open>entropy env k\<close>: the \<open>k\<close>-th raw
  draw of a random source.

  The script opens one session only, so the session is part of the world: whether it
  is open, the committed content of the store, the content as the open transaction
  sees it, and the time the open transaction started.
\<close>

record world =
  trace :: "event list"
  connects :: nat
  ops :: nat
  rng :: nat
  conn_open :: bool
  committed :: database
  pending :: database
  txn_start :: "nat option"

text \<open>The session object returned by the \<open>k\<close>-th call of \<open>psycopg2.connect\<close>.\<close>

datatype conn = Conn nat

subsection \<open>Logging and sleeping\<close>

definition emit :: "event \<Rightarrow> world \<Rightarrow> world" where
  "emit e w = w\<lparr>trace := trace w @ [e]\<rparr>"

definition logger_log :: "level \<Rightarrow> message \<Rightarrow> world \<Rightarrow> world" where
  "logger_log lvl m w = (if level_no INFO \<le> level_no lvl then emit (Log lvl m) w else w)"

definition logger_debug :: "message \<Rightarrow> world \<Rightarrow> world" where
  "logger_debug = logger_log DEBUG"

definition logger_info :: "message \<Rightarrow> world \<Rightarrow> world" where
  "logger_info = logger_log INFO"

definition logger_error :: "message \<Rightarrow> world \<Rightarrow> world" where
  "logger_error = logger_log ERROR"

definition logger_critical :: "message \<Rightarrow> world \<Rightarrow> world" where
  "logger_critical = logger_log CRITICAL"

text \<open>\<open>logger.exception\<close> logs at level ERROR.\<close>

definition logger_exception :: "message \<Rightarrow> world \<Rightarrow> world" where
  "logger_exception = logger_log ERROR"

text \<open>A blocking call asks the oracle whether it is cut short.\<close>

definition blocking_call :: "env \<Rightarrow> world \<Rightarrow> exn option \<times> world" where
  "blocking_call env w = (faults env (ops w), w\<lparr>ops := ops w + 1\<rparr>)"

definition time_sleep :: "env \<Rightarrow> nat \<Rightarrow> world \<Rightarrow> (exn + unit) \<times> world" where
  "time_sleep env d w =
     (case blocking_call env (emit (Sleep d) w) of
        (Some e, w') \<Rightarrow> (Inl e, w')
      | (None, w') \<Rightarrow> (Inr (), w'))"

subsection \<open>Connection Manager: \<open>get_db_connection\<close>\<close>

definition psycopg2_connect :: "env \<Rightarrow> world \<Rightarrow> (exn + conn) \<times> world" where
  "psycopg2_connect env w =
     (let k = connects w;
          w1 = emit ConnectAttempt (w\<lparr>connects := k + 1\<rparr>)
      in case connect_outcome env k of
           Some e \<Rightarrow> (Inl e, w1)
         | None \<Rightarrow>
             (Inr (Conn k), w1\<lparr>conn_open := True, pending := committed w1, txn_start := None\<rparr>))"

definition max_retries :: nat where
  "max_retries = 5"

definition retry_delay :: nat where
  "retry_delay = 2"

text \<open>
  The body of \<open>for attempt in range(max_retries)\<close>, by recursion on the attempts still
  to come. A loop that runs out falls off the end of the function, which returns
  \<open>None\<close>. The handler catches \<open>psycopg2.OperationalError\<close> only.
\<close>

fun connect_attempts :: "env \<Rightarrow> nat list \<Rightarrow> world \<Rightarrow> (exn + conn option) \<times> world" where
  "connect_attempts env [] w = (Inr None, w)"
| "connect_attempts env (attempt # rest) w =
     (case psycopg2_connect env (logger_info (Msg_attempt (attempt + 1) max_retries) w) of
        (Inr c, w1) \<Rightarrow> (Inr (Some c), logger_info Msg_connected w1)
      | (Inl (OperationalError s), w1) \<Rightarrow>
          (let w2 = logger_error (Msg_connection_failed s) w1 in
           if attempt < max_retries - 1 then
             (case time_sleep env retry_delay (logger_info (Msg_retrying retry_delay) w2) of
                (Inl e, w3) \<Rightarrow> (Inl e, w3)
              | (Inr _, w3) \<Rightarrow> connect_attempts env rest w3)
           else
             (Inl (ConnectFailure max_retries s),
              logger_critical (Msg_failed_to_connect max_retries) w2))
      | (Inl e, w1) \<Rightarrow> (Inl e, w1))"

definition get_db_connection :: "env \<Rightarrow> world \<Rightarrow> (exn + conn option) \<times> world" where
  "get_db_connection env w =
     connect_attempts env [0..<max_retries] (logger_info Msg_attempting_to_connect w)"

subsection \<open>Sequencing\<close>

text \<open>
  \<open>bind_io m f\<close> runs \<open>m\<close>, and \<open>f\<close> on its value unless \<open>m\<close> raised. The state is the
  world, or the world together with the local variables of \<open>main\<close>.
\<close>

definition bind_io ::
  "('s \<Rightarrow> (exn + 'a) \<times> 's) \<Rightarrow> ('a \<Rightarrow> 's \<Rightarrow> (exn + 'b) \<times> 's) \<Rightarrow> 's \<Rightarrow> (exn + 'b) \<times> 's" where
  "bind_io m f s = (case m s of (Inl e, s') \<Rightarrow> (Inl e, s') | (Inr a, s') \<Rightarrow> f a s')"

definition return_io :: "'a \<Rightarrow> 's \<Rightarrow> (exn + 'a) \<times> 's" where
  "return_io a s = (Inr a, s)"

definition raise_io :: "exn \<Rightarrow> 's \<Rightarrow> (exn + 'a) \<times> 's" where
  "raise_io e s = (Inl e, s)"

text \<open>A call that cannot raise, such as a log call.\<close>

definition effect_io :: "('s \<Rightarrow> 's) \<Rightarrow> 's \<Rightarrow> (exn + unit) \<times> 's" where
  "effect_io g s = (Inr (), g s)"

subsection \<open>Python floats\<close>

text \<open>
  A float is an IEEE 754 binary64 number, represented by the rational it denotes.
  Every arithmetic operation computes the exact result and rounds it to the nearest
  number with a 53-bit significand, ties to even (\<open>float_round\<close>). The exponent range
  is not modelled: the values of this program stay between \<open>2 ^ -53\<close> and \<open>10 ^ 4\<close>,
  far from overflow and from the subnormal numbers.
\<close>

definition round_half_even :: "rat \<Rightarrow> int" where
  "round_half_even x =
     (let f = \<lfloor>x\<rfloor>; d = x - of_int f
      in if d < 1 / 2 then f
         else if 1 / 2 < d then f + 1
         else if even f then f else f + 1)"

text \<open>\<open>ilog2 x\<close> is the exponent \<open>e\<close> with \<open>2 ^ e \<le> x < 2 ^ (e + 1)\<close>, for positive \<open>x\<close>.\<close>

definition ilog2 :: "rat \<Rightarrow> int" where
  "ilog2 x =
     (case quotient_of x of (p, q) \<Rightarrow>
        let e = bitlen p - bitlen q in if 2 powi e \<le> x then e else e - 1)"

definition float_round :: "rat \<Rightarrow> rat" where
  "float_round x =
     (if x = 0 then 0
      else let ulp = 2 powi (ilog2 \<bar>x\<bar> - 52)
           in sgn x * of_int (round_half_even (\<bar>x\<bar> / ulp)) * ulp)"

definition float_add :: "rat \<Rightarrow> rat \<Rightarrow> rat" where
  "float_add x y = float_round (x + y)"

definition float_sub :: "rat \<Rightarrow> rat \<Rightarrow> rat" where
  "float_sub x y = float_round (x - y)"

definition float_mul :: "rat \<Rightarrow> rat \<Rightarrow> rat" where
  "float_mul x y = float_round (x * y)"

definition float_of_int :: "int \<Rightarrow> rat" where
  "float_of_int n = float_round (of_int n)"

text \<open>
  \<open>round(x, ndigits)\<close> on a float: the decimal with \<open>ndigits\<close> fractional digits nearest
  to the exact value of \<open>x\<close>, ties to even, converted back to the nearest float.
\<close>

definition py_round :: "rat \<Rightarrow> nat \<Rightarrow> rat" where
  "py_round x ndigits =
     float_round (of_int (round_half_even (x * 10 ^ ndigits)) / 10 ^ ndigits)"

text \<open>The float literals \<open>5.99\<close> and \<open>999.99\<close>.\<close>

definition lit_5_99 :: rat where
  "lit_5_99 = float_round (599 / 100)"

definition lit_999_99 :: rat where
  "lit_999_99 = float_round (99999 / 100)"

subsection \<open>The random sources\<close>

text \<open>
  Each call consumes one raw draw of the oracle. \<open>random.random()\<close> is a multiple of
  \<open>2 ^ -53\<close> in \<open>[0, 1)\<close>; \<open>random.uniform(a, b)\<close> is \<open>a + (b - a) * random()\<close> in float
  arithmetic; \<open>random.randint(a, b)\<close> is an integer of \<open>[a, b]\<close> and raises
  \<open>ValueError\<close> on an empty range; \<open>random.choice(seq)\<close> is an element of \<open>seq\<close> and
  raises \<open>IndexError\<close> on an empty one. Faker draws its texts the same way.
\<close>

definition draw :: "env \<Rightarrow> world \<Rightarrow> nat \<times> world" where
  "draw env w = (entropy env (rng w), w\<lparr>rng := rng w + 1\<rparr>)"

definition random_random :: "env \<Rightarrow> world \<Rightarrow> (exn + rat) \<times> world" where
  "random_random env w =
     (case draw env w of (r, w') \<Rightarrow> (Inr (of_nat (r mod 2 ^ 53) / 2 ^ 53), w'))"

definition random_uniform :: "env \<Rightarrow> rat \<Rightarrow> rat \<Rightarrow> world \<Rightarrow> (exn + rat) \<times> world" where
  "random_uniform env a b =
     bind_io (random_random env) (\<lambda>u. return_io (float_add a (float_mul (float_sub b a) u)))"

definition random_randint :: "env \<Rightarrow> int \<Rightarrow> int \<Rightarrow> world \<Rightarrow> (exn + int) \<times> world" where
  "random_randint env a b w =
     (if b < a then (Inl ValueError, w)
      else case draw env w of (r, w') \<Rightarrow> (Inr (a + int (r mod nat (b - a + 1))), w'))"

definition random_choice :: "env \<Rightarrow> 'a list \<Rightarrow> world \<Rightarrow> (exn + 'a) \<times> world" where
  "random_choice env seq w =
     (if seq = [] then (Inl IndexError, w)
      else case draw env w of (r, w') \<Rightarrow> (Inr (seq ! (r mod length seq)), w'))"

definition faker :: "(env \<Rightarrow> nat \<Rightarrow> string) \<Rightarrow> env \<Rightarrow> world \<Rightarrow> (exn + string) \<times> world" where
  "faker field env w = (Inr (field env (rng w)), w\<lparr>rng := rng w + 1\<rparr>)"

subsection \<open>Record Factory: \<open>generate_product\<close>, \<open>generate_sale\<close>\<close>

definition categories :: "string list" where
  "categories = [''Electronics'', ''Clothing'', ''Food'', ''Books'', ''Home'', ''Sports'', ''Toys'']"

definition generate_product :: "env \<Rightarrow> world \<Rightarrow> (exn + product) \<times> world" where
  "generate_product env =
     bind_io (faker fake_catch_phrase env) (\<lambda>n.
     bind_io (random_choice env categories) (\<lambda>c.
     bind_io (random_uniform env lit_5_99 lit_999_99) (\<lambda>u.
     bind_io (random_randint env 0 500) (\<lambda>s.
     return_io \<lparr>name = n, category = c, price = py_round u 2, stock_quantity = s\<rparr>))))"

definition generate_sale :: "env \<Rightarrow> int list \<Rightarrow> world \<Rightarrow> (exn + sale) \<times> world" where
  "generate_sale env product_ids =
     bind_io (random_randint env 1 10) (\<lambda>quantity'.
     bind_io (random_uniform env lit_5_99 lit_999_99) (\<lambda>u.
     let price' = py_round u 2 in
     bind_io (if product_ids \<noteq> [] then bind_io (random_choice env product_ids) (\<lambda>p. return_io (Some p))
              else return_io None) (\<lambda>pid.
     bind_io (faker fake_name env) (\<lambda>cn.
     bind_io (faker fake_email env) (\<lambda>ce.
     return_io \<lparr>product_id = pid, customer_name = cn, customer_email = ce,
                quantity = quantity',
                total_amount = py_round (float_mul price' (float_of_int quantity')) 2\<rparr>)))))"

text \<open>The list comprehensions \<open>[generate_product() for _ in range(count)]\<close>.\<close>

fun generate_products :: "env \<Rightarrow> nat \<Rightarrow> world \<Rightarrow> (exn + product list) \<times> world" where
  "generate_products env 0 w = (Inr [], w)"
| "generate_products env (Suc n) w =
     (case generate_product env w of
        (Inl e, w1) \<Rightarrow> (Inl e, w1)
      | (Inr p, w1) \<Rightarrow>
          (case generate_products env n w1 of
             (Inl e, w2) \<Rightarrow> (Inl e, w2)
           | (Inr ps, w2) \<Rightarrow> (Inr (p # ps), w2)))"

fun generate_sales :: "env \<Rightarrow> int list \<Rightarrow> nat \<Rightarrow> world \<Rightarrow> (exn + sale list) \<times> world" where
  "generate_sales env product_ids 0 w = (Inr [], w)"
| "generate_sales env product_ids (Suc n) w =
     (case generate_sale env product_ids w of
        (Inl e, w1) \<Rightarrow> (Inl e, w1)
      | (Inr s, w1) \<Rightarrow>
          (case generate_sales env product_ids n w1 of
             (Inl e, w2) \<Rightarrow> (Inl e, w2)
           | (Inr ss, w2) \<Rightarrow> (Inr (s # ss), w2)))"

subsection \<open>The driver: cursors, statements, commit, close\<close>

text \<open>
  The six SQL statements of the script. \<open>InsertProducts\<close> and \<open>InsertSales\<close> are the
  multi-row \<open>INSERT ... VALUES ... RETURNING id\<close> that \<open>execute_values\<close> builds from one
  page of rows.
\<close>

datatype table_name = Products | Sales

datatype statement =
    CreateProductsIfNotExists
  | CreateSalesIfNotExists
  | AlterReplicaIdentityFull table_name
  | InsertProducts "product list"
  | InsertSales "sale list"
  | SelectRandomProductIds nat

text \<open>
  Inserting rows draws consecutive identifiers from the table's sequence, one per row
  in the order of the \<open>VALUES\<close> list, and stamps each row with the time of the
  transaction; \<open>RETURNING id\<close> yields the identifiers in that order.
\<close>

definition insert_rows :: "nat \<Rightarrow> 'r list \<Rightarrow> 'r table \<Rightarrow> 'r table \<times> int list" where
  "insert_rows t rs tbl =
     (let ids = map (\<lambda>i. next_id tbl + int i) [0..<length rs]
      in (tbl\<lparr>rows := rows tbl @ map (\<lambda>(i, r). \<lparr>row_id = i, row_time = t, row_data = r\<rparr>) (zip ids rs),
               next_id := next_id tbl + int (length rs)\<rparr>,
          ids))"

text \<open>\<open>ORDER BY RANDOM()\<close>: one random key per row, rows sorted by their keys.\<close>

definition order_by_random :: "nat list \<Rightarrow> 'a list \<Rightarrow> 'a list" where
  "order_by_random keys xs = map snd (sort_key fst (zip keys xs))"

definition undefined_table :: exn where
  "undefined_table = ProgrammingError ''relation does not exist''"

text \<open>
  What a statement does to the content the open transaction sees, at transaction
  time \<open>t\<close>, and the result set it leaves on the cursor (\<open>None\<close> when it has none).
\<close>

fun run_statement :: "env \<Rightarrow> statement \<Rightarrow> nat \<Rightarrow> world \<Rightarrow> (exn + int list option) \<times> world" where
  "run_statement env CreateProductsIfNotExists t w =
     (case products_tbl (pending w) of
        None \<Rightarrow> (Inr None, w\<lparr>pending := (pending w)\<lparr>products_tbl := Some empty_table\<rparr>\<rparr>)
      | Some tbl \<Rightarrow> (Inr None, w))"
| "run_statement env CreateSalesIfNotExists t w =
     (case sales_tbl (pending w) of
        None \<Rightarrow> (Inr None, w\<lparr>pending := (pending w)\<lparr>sales_tbl := Some empty_table\<rparr>\<rparr>)
      | Some tbl \<Rightarrow> (Inr None, w))"
| "run_statement env (AlterReplicaIdentityFull Products) t w =
     (case products_tbl (pending w) of
        None \<Rightarrow> (Inl undefined_table, w)
      | Some tbl \<Rightarrow>
          (Inr None,
           w\<lparr>pending := (pending w)\<lparr>products_tbl := Some (tbl\<lparr>replica_identity_full := True\<rparr>)\<rparr>\<rparr>))"
| "run_statement env (AlterReplicaIdentityFull Sales) t w =
     (case sales_tbl (pending w) of
        None \<Rightarrow> (Inl undefined_table, w)
      | Some tbl \<Rightarrow>
          (Inr None,
           w\<lparr>pending := (pending w)\<lparr>sales_tbl := Some (tbl\<lparr>replica_identity_full := True\<rparr>)\<rparr>\<rparr>))"
| "run_statement env (InsertProducts ps) t w =
     (case products_tbl (pending w) of
        None \<Rightarrow> (Inl undefined_table, w)
      | Some tbl \<Rightarrow>
          (case insert_rows t ps tbl of
             (tbl', ids) \<Rightarrow> (Inr (Some ids), w\<lparr>pending := (pending w)\<lparr>products_tbl := Some tbl'\<rparr>\<rparr>)))"
| "run_statement env (InsertSales ss) t w =
     (case sales_tbl (pending w) of
        None \<Rightarrow> (Inl undefined_table, w)
      | Some tbl \<Rightarrow>
          (case insert_rows t ss tbl of
             (tbl', ids) \<Rightarrow> (Inr (Some ids), w\<lparr>pending := (pending w)\<lparr>sales_tbl := Some tbl'\<rparr>\<rparr>)))"
| "run_statement env (SelectRandomProductIds limit) t w =
     (case products_tbl (pending w) of
        None \<Rightarrow> (Inl undefined_table, w)
      | Some tbl \<Rightarrow>
          (let n = length (rows tbl);
               keys = map (\<lambda>i. entropy env (rng w + i)) [0..<n]
           in (Inr (Some (take limit (order_by_random keys (map row_id (rows tbl))))),
               w\<lparr>rng := rng w + n\<rparr>)))"

text \<open>
  \<open>conn.cursor()\<close> fails on a closed session. \<open>cur.execute\<close> is a blocking call; the
  first statement after a commit opens a transaction, whose time is the time of that
  statement. A statement that fails leaves the content as it was.
\<close>

definition conn_cursor :: "conn \<Rightarrow> world \<Rightarrow> (exn + int list option) \<times> world" where
  "conn_cursor c w =
     (if conn_open w then (Inr None, w) else (Inl (DatabaseError ''connection already closed''), w))"

definition cursor_execute :: "env \<Rightarrow> statement \<Rightarrow> world \<Rightarrow> (exn + int list option) \<times> world" where
  "cursor_execute env stmt w =
     (case blocking_call env w of
        (Some e, w1) \<Rightarrow> (Inl e, w1)
      | (None, w1) \<Rightarrow>
          (let t = (case txn_start w1 of None \<Rightarrow> ops w | Some t' \<Rightarrow> t')
           in run_statement env stmt t (w1\<lparr>txn_start := Some t\<rparr>)))"

definition cursor_fetchall :: "int list option \<Rightarrow> world \<Rightarrow> (exn + int list) \<times> world" where
  "cursor_fetchall cur w =
     (case cur of
        None \<Rightarrow> (Inl (ProgrammingError ''no results to fetch''), w)
      | Some ids \<Rightarrow> (Inr ids, w))"

text \<open>
  \<open>psycopg2.extras.execute_values(cur, sql, argslist)\<close> with its default
  \<open>page_size=100\<close> and \<open>fetch=False\<close>: one statement per page of at most 100 rows, the
  cursor keeping the result set of the last statement only. An empty \<open>argslist\<close>
  executes nothing.
\<close>

definition page_size :: nat where
  "page_size = 100"

function paginate :: "'a list \<Rightarrow> 'a list list" where
  "paginate seq = (if seq = [] then [] else take page_size seq # paginate (drop page_size seq))"
  by pat_completeness auto
termination
  by (relation "measure length") (auto simp: page_size_def)

declare paginate.simps [simp del]

fun execute_pages ::
  "env \<Rightarrow> ('r list \<Rightarrow> statement) \<Rightarrow> 'r list list \<Rightarrow> int list option \<Rightarrow> world
     \<Rightarrow> (exn + int list option) \<times> world" where
  "execute_pages env sql [] cur w = (Inr cur, w)"
| "execute_pages env sql (page # pages) cur w =
     (case cursor_execute env (sql page) w of
        (Inl e, w1) \<Rightarrow> (Inl e, w1)
      | (Inr cur1, w1) \<Rightarrow> execute_pages env sql pages cur1 w1)"

definition execute_values ::
  "env \<Rightarrow> int list option \<Rightarrow> ('r list \<Rightarrow> statement) \<Rightarrow> 'r list \<Rightarrow> world
     \<Rightarrow> (exn + int list option) \<times> world" where
  "execute_values env cur sql argslist = execute_pages env sql (paginate argslist) cur"

definition conn_commit :: "env \<Rightarrow> conn \<Rightarrow> world \<Rightarrow> (exn + unit) \<times> world" where
  "conn_commit env c w =
     (case blocking_call env w of
        (Some e, w1) \<Rightarrow> (Inl e, w1)
      | (None, w1) \<Rightarrow> (Inr (), w1\<lparr>committed := pending w1, txn_start := None\<rparr>))"

text \<open>Closing the session drops what was not committed.\<close>

definition conn_close :: "conn \<Rightarrow> world \<Rightarrow> world" where
  "conn_close c w = w\<lparr>conn_open := False, pending := committed w, txn_start := None\<rparr>"

subsection \<open>Schema Provisioner: \<open>create_tables\<close>\<close>

text \<open>
  The argument is what \<open>get_db_connection\<close> returned; on \<open>None\<close> the call
  \<open>conn.cursor()\<close> raises \<open>AttributeError\<close>.
\<close>

definition the_conn :: "conn option \<Rightarrow> world \<Rightarrow> (exn + conn) \<times> world" where
  "the_conn co w = (case co of None \<Rightarrow> (Inl AttributeError, w) | Some c \<Rightarrow> (Inr c, w))"

definition create_tables :: "env \<Rightarrow> conn option \<Rightarrow> world \<Rightarrow> (exn + unit) \<times> world" where
  "create_tables env co =
     bind_io (effect_io (logger_info Msg_creating_tables)) (\<lambda>_.
     bind_io (the_conn co) (\<lambda>c.
     bind_io (conn_cursor c) (\<lambda>cur.
     bind_io (cursor_execute env CreateProductsIfNotExists) (\<lambda>_.
     bind_io (effect_io (logger_info Msg_products_table_ready)) (\<lambda>_.
     bind_io (cursor_execute env CreateSalesIfNotExists) (\<lambda>_.
     bind_io (effect_io (logger_info Msg_sales_table_ready)) (\<lambda>_.
     bind_io (cursor_execute env (AlterReplicaIdentityFull Products)) (\<lambda>_.
     bind_io (effect_io (logger_info Msg_products_replica_identity)) (\<lambda>_.
     bind_io (cursor_execute env (AlterReplicaIdentityFull Sales)) (\<lambda>_.
     bind_io (effect_io (logger_info Msg_sales_replica_identity)) (\<lambda>_.
     bind_io (conn_commit env c) (\<lambda>_.
     effect_io (logger_info Msg_tables_created)))))))))))))"

subsection \<open>Batch Writer: \<open>insert_products\<close>, \<open>insert_sales\<close>\<close>

text \<open>
  \<open>insert_products\<close> returns \<open>inserted_ids\<close>. \<open>insert_sales\<close> builds \<open>inserted_ids\<close> the
  same way, for its debug line, and ends without a \<open>return\<close>: its value is Python's
  \<open>None\<close>, written \<open>None\<close> here, where \<open>Some ids\<close> would be a returned list. The
  parameter \<open>count\<close> is a Python integer; \<open>range(count)\<close> is empty for a negative one.
\<close>

definition insert_products :: "env \<Rightarrow> conn option \<Rightarrow> int \<Rightarrow> world \<Rightarrow> (exn + int list) \<times> world" where
  "insert_products env co count =
     bind_io (generate_products env (nat count)) (\<lambda>products.
     bind_io (the_conn co) (\<lambda>c.
     bind_io (conn_cursor c) (\<lambda>cur.
     bind_io (execute_values env cur InsertProducts products) (\<lambda>cur1.
     bind_io (cursor_fetchall cur1) (\<lambda>inserted_ids.
     bind_io (conn_commit env c) (\<lambda>_.
     bind_io (effect_io (logger_debug (Msg_inserted_products (nat count) inserted_ids))) (\<lambda>_.
     return_io inserted_ids)))))))"

definition insert_sales ::
  "env \<Rightarrow> conn option \<Rightarrow> int list \<Rightarrow> int \<Rightarrow> world \<Rightarrow> (exn + int list option) \<times> world" where
  "insert_sales env co pool count =
     bind_io (generate_sales env pool (nat count)) (\<lambda>sales.
     bind_io (the_conn co) (\<lambda>c.
     bind_io (conn_cursor c) (\<lambda>cur.
     bind_io (execute_values env cur InsertSales sales) (\<lambda>cur1.
     bind_io (cursor_fetchall cur1) (\<lambda>inserted_ids.
     bind_io (conn_commit env c) (\<lambda>_.
     bind_io (effect_io (logger_debug (Msg_inserted_sales (nat count) inserted_ids))) (\<lambda>_.
     return_io None)))))))"

definition get_random_product_ids :: "env \<Rightarrow> conn option \<Rightarrow> nat \<Rightarrow> world \<Rightarrow> (exn + int list) \<times> world" where
  "get_random_product_ids env co limit =
     bind_io (the_conn co) (\<lambda>c.
     bind_io (conn_cursor c) (\<lambda>cur.
     bind_io (cursor_execute env (SelectRandomProductIds limit)) (\<lambda>cur1.
     cursor_fetchall cur1)))"

subsection \<open>Process start\<close>

text \<open>The world when the interpreter enters \<open>main\<close>, against a store holding \<open>db\<close>.\<close>

definition initial_world :: "database \<Rightarrow> world" where
  "initial_world db =
     \<lparr>trace = [], connects = 0, ops = 0, rng = 0, conn_open = False,
      committed = db, pending = db, txn_start = None\<rparr>"

subsection \<open>Generation Loop: \<open>main\<close>\<close>

text \<open>The local variables of \<open>main\<close> that the loop updates.\<close>

record locals =
  product_ids :: "int list"
  iteration :: int
  total_products :: int
  total_sales :: int

text \<open>
  The body of \<open>while True\<close>, in the four steps the source's comments name. The state
  is the pair of the locals and the world, so that a raise keeps the locals as they
  were at that moment: the \<open>finally\<close> clause reports them.
\<close>

definition loop_insert_products ::
  "env \<Rightarrow> conn option \<Rightarrow> locals \<times> world \<Rightarrow> (exn + unit) \<times> (locals \<times> world)" where
  "loop_insert_products env co s =
     (case s of (l, w) \<Rightarrow>
        let l1 = l\<lparr>iteration := iteration l + 1\<rparr> in
        case random_randint env 1 2 w of
          (Inl e, w1) \<Rightarrow> (Inl e, (l1, w1))
        | (Inr product_count, w1) \<Rightarrow>
            (case insert_products env co product_count w1 of
               (Inl e, w2) \<Rightarrow> (Inl e, (l1, w2))
             | (Inr new_product_ids, w2) \<Rightarrow>
                 (Inr (),
                  (l1\<lparr>product_ids := product_ids l1 @ new_product_ids,
                      total_products := total_products l1 + product_count\<rparr>, w2))))"

definition loop_refresh_pool ::
  "env \<Rightarrow> conn option \<Rightarrow> locals \<times> world \<Rightarrow> (exn + unit) \<times> (locals \<times> world)" where
  "loop_refresh_pool env co s =
     (case s of (l, w) \<Rightarrow>
        if length (product_ids l) > 100 then
          (case get_random_product_ids env co 100 w of
             (Inl e, w1) \<Rightarrow> (Inl e, (l, w1))
           | (Inr ids, w1) \<Rightarrow> (Inr (), (l\<lparr>product_ids := ids\<rparr>, w1)))
        else (Inr (), (l, w)))"

definition loop_insert_sales ::
  "env \<Rightarrow> conn option \<Rightarrow> locals \<times> world \<Rightarrow> (exn + unit) \<times> (locals \<times> world)" where
  "loop_insert_sales env co s =
     (case s of (l, w) \<Rightarrow>
        case random_randint env 1 2 w of
          (Inl e, w1) \<Rightarrow> (Inl e, (l, w1))
        | (Inr sale_count, w1) \<Rightarrow>
            (case insert_sales env co (product_ids l) sale_count w1 of
               (Inl e, w2) \<Rightarrow> (Inl e, (l, w2))
             | (Inr _, w2) \<Rightarrow> (Inr (), (l\<lparr>total_sales := total_sales l + sale_count\<rparr>, w2))))"

definition loop_report_and_sleep ::
  "env \<Rightarrow> locals \<times> world \<Rightarrow> (exn + unit) \<times> (locals \<times> world)" where
  "loop_report_and_sleep env s =
     (case s of (l, w) \<Rightarrow>
        let w1 = (if iteration l mod 10 = 0
                  then logger_info (Msg_progress (total_products l) (total_sales l) (iteration l)) w
                  else w) in
        case time_sleep env 1 w1 of
          (Inl e, w2) \<Rightarrow> (Inl e, (l, w2))
        | (Inr _, w2) \<Rightarrow> (Inr (), (l, w2)))"

definition loop_body ::
  "env \<Rightarrow> conn option \<Rightarrow> locals \<times> world \<Rightarrow> (exn + unit) \<times> (locals \<times> world)" where
  "loop_body env co =
     bind_io (loop_insert_products env co) (\<lambda>_.
     bind_io (loop_refresh_pool env co) (\<lambda>_.
     bind_io (loop_insert_sales env co) (\<lambda>_.
     loop_report_and_sleep env)))"

text \<open>
  \<open>while True\<close> has no exit of its own. \<open>main_loop n\<close> runs at most \<open>n\<close> iterations:
  it yields \<open>Inr ()\<close> when \<open>n\<close> iterations have completed and the loop goes on, and
  \<open>Inl e\<close> when an iteration raised \<open>e\<close>.
\<close>

fun main_loop ::
  "nat \<Rightarrow> env \<Rightarrow> conn option \<Rightarrow> locals \<times> world \<Rightarrow> (exn + unit) \<times> (locals \<times> world)" where
  "main_loop 0 env co s = (Inr (), s)"
| "main_loop (Suc n) env co s =
     (case loop_body env co s of
        (Inl e, s') \<Rightarrow> (Inl e, s')
      | (Inr _, s') \<Rightarrow> main_loop n env co s')"

text \<open>Everything before the \<open>try\<close>: connect, create the tables, seed 20 products.\<close>

definition main_startup :: "env \<Rightarrow> world \<Rightarrow> (exn + conn option \<times> locals) \<times> world" where
  "main_startup env =
     bind_io (effect_io (logger_info Msg_starting)) (\<lambda>_.
     bind_io (get_db_connection env) (\<lambda>co.
     bind_io (create_tables env co) (\<lambda>_.
     bind_io (effect_io (logger_info Msg_seeding)) (\<lambda>_.
     bind_io (insert_products env co 20) (\<lambda>ids.
     bind_io (effect_io (logger_info (Msg_seeded (length ids)))) (\<lambda>_.
     bind_io (effect_io (logger_info Msg_starting_generation)) (\<lambda>_.
     bind_io (effect_io (logger_info Msg_press_ctrl_c)) (\<lambda>_.
     return_io (co, \<lparr>product_ids = ids, iteration = 0,
                      total_products = int (length ids), total_sales = 0\<rparr>)))))))))"

text \<open>The \<open>finally\<close> clause.\<close>

definition main_finally :: "conn option \<Rightarrow> locals \<Rightarrow> world \<Rightarrow> (exn + unit) \<times> world" where
  "main_finally co l =
     bind_io (the_conn co) (\<lambda>c.
     bind_io (effect_io (conn_close c)) (\<lambda>_.
     bind_io (effect_io (logger_info Msg_connection_closed)) (\<lambda>_.
     effect_io (logger_info (Msg_final_stats (total_products l) (total_sales l))))))"

text \<open>
  How \<open>main\<close> ends, given at most \<open>n\<close> iterations: the loop is still running, or \<open>main\<close>
  returned, or an exception left it. \<open>except KeyboardInterrupt\<close> swallows the
  interrupt; \<open>except Exception\<close> logs and raises again; \<open>finally\<close> runs in all cases.
\<close>

datatype outcome = StillRunning | Returned | Uncaught exn

definition main :: "nat \<Rightarrow> env \<Rightarrow> world \<Rightarrow> outcome \<times> world" where
  "main n env w =
     (case main_startup env w of
        (Inl e, w1) \<Rightarrow> (Uncaught e, w1)
      | (Inr (co, l), w1) \<Rightarrow>
          (case main_loop n env co (l, w1) of
             (Inr _, (l', w2)) \<Rightarrow> (StillRunning, w2)
           | (Inl e, (l', w2)) \<Rightarrow>
               (case (if e = KeyboardInterrupt then (None, logger_info Msg_stopping w2)
                      else if is_Exception e
                        then (Some e, logger_exception (Msg_error_occurred (str_exn e)) w2)
                      else (Some e, w2)) of
                  (reraise, w3) \<Rightarrow>
                    (case main_finally co l' w3 of
                       (Inl e', w4) \<Rightarrow> (Uncaught e', w4)
                     | (Inr _, w4) \<Rightarrow>
                         (case reraise of None \<Rightarrow> (Returned, w4) | Some e'' \<Rightarrow> (Uncaught e'', w4))))))"

text \<open>
  The exit status of the interpreter: 0 when \<open>main\<close> returns, 1 when an exception
  leaves it, 130 when that exception is \<open>KeyboardInterrupt\<close>; none while it runs.
\<close>

fun exit_status :: "outcome \<Rightarrow> nat option" where
  "exit_status StillRunning = None"
| "exit_status Returned = Some 0"
| "exit_status (Uncaught KeyboardInterrupt) = Some 130"
| "exit_status (Uncaught e) = Some 1"

section \<open>Properties\<close>

subsection \<open>Vocabulary of the connection claims\<close>


fun is_OperationalError :: "exn \<Rightarrow> bool" where
  "is_OperationalError (OperationalError s) = True"
| "is_OperationalError _ = False"

definition refuses :: "env \<Rightarrow> nat \<Rightarrow> bool" where
  "refuses env k = (case connect_outcome env k of Some e \<Rightarrow> is_OperationalError e | None \<Rightarrow> False)"

definition uninterrupted :: "env \<Rightarrow> nat \<Rightarrow> nat \<Rightarrow> bool" where
  "uninterrupted env k n = (\<forall>i<n. faults env (k + i) = None)"

fun is_log :: "event \<Rightarrow> bool" where
  "is_log (Log l m) = True"
| "is_log _ = False"

fun is_failure_log :: "event \<Rightarrow> bool" where
  "is_failure_log (Log ERROR (Msg_connection_failed s)) = True"
| "is_failure_log _ = False"

fun is_critical_log :: "event \<Rightarrow> bool" where
  "is_critical_log (Log CRITICAL m) = True"
| "is_critical_log _ = False"

fun is_connected_log :: "event \<Rightarrow> bool" where
  "is_connected_log (Log INFO Msg_connected) = True"
| "is_connected_log _ = False"

definition new_events :: "world \<Rightarrow> world \<Rightarrow> event list" where
  "new_events w w' = drop (length (trace w)) (trace w')"

definition effects :: "event list \<Rightarrow> event list" where
  "effects t = filter (\<lambda>e. \<not> is_log e) t"

text \<open>What \<open>k\<close> refused attempts, each followed by its wait, do to the world.\<close>

definition retried :: "nat \<Rightarrow> world \<Rightarrow> world \<Rightarrow> bool" where
  "retried k w w' \<longleftrightarrow>
     connects w' = connects w + k \<and> ops w' = ops w + k \<and> conn_open w' = conn_open w \<and>
     length (trace w) \<le> length (trace w') \<and> take (length (trace w)) (trace w') = trace w \<and>
     effects (new_events w w') = concat (replicate k [ConnectAttempt, Sleep retry_delay]) \<and>
     length (filter is_failure_log (new_events w w')) = k \<and>
     filter is_critical_log (new_events w w') = [] \<and>
     filter is_connected_log (new_events w w') = []"

subsection \<open>Concrete oracles\<close>

text \<open>
  An oracle under which nothing goes wrong, and one whose store refuses the first \<open>n\<close>
  connection attempts.
\<close>

definition quiet_env :: env where
  "quiet_env =
     \<lparr>connect_outcome = (\<lambda>k. None), faults = (\<lambda>k. None),
      entropy = (\<lambda>k. 7 * k + 3),
      fake_catch_phrase = (\<lambda>k. ''Reactive systems''),
      fake_name = (\<lambda>k. ''Ada Lovelace''), fake_email = (\<lambda>k. ''ada@example.org'')\<rparr>"

definition refusing_env :: "nat \<Rightarrow> env" where
  "refusing_env n =
     quiet_env\<lparr>connect_outcome :=
       (\<lambda>k. if k < n then Some (OperationalError ''connection refused'') else None)\<rparr>"

definition failing_connect_env :: "nat \<Rightarrow> exn \<Rightarrow> env" where
  "failing_connect_env n e =
     quiet_env\<lparr>connect_outcome :=
       (\<lambda>k. if k < n then Some (OperationalError ''connection refused'') else Some e)\<rparr>"

subsection \<open>Vocabulary of the schema claim\<close>

text \<open>
  A store is provisioned from \<open>db\<close> when both tables exist with full replica
  identity, an existing table keeping its rows and its sequence.
\<close>

definition ensure_table :: "'r table option \<Rightarrow> 'r table" where
  "ensure_table t =
     (case t of None \<Rightarrow> empty_table | Some tbl \<Rightarrow> tbl)\<lparr>replica_identity_full := True\<rparr>"

definition provisioned :: "database \<Rightarrow> database" where
  "provisioned db =
     \<lparr>products_tbl = Some (ensure_table (products_tbl db)),
      sales_tbl = Some (ensure_table (sales_tbl db))\<rparr>"

definition table_names :: "database \<Rightarrow> table_name list" where
  "table_names db =
     (case products_tbl db of None \<Rightarrow> [] | Some t \<Rightarrow> [Products]) @
     (case sales_tbl db of None \<Rightarrow> [] | Some t \<Rightarrow> [Sales])"

subsection \<open>Vocabulary of the batch and loop claims\<close>

text \<open>The time a statement executed now would give to the rows it inserts.\<close>

definition stamp :: "world \<Rightarrow> nat" where
  "stamp w = (case txn_start w of None \<Rightarrow> ops w | Some t \<Rightarrow> t)"

text \<open>The rows a table gained between two states, and how many rows it holds.\<close>

definition new_rows :: "'r table \<Rightarrow> 'r table \<Rightarrow> 'r row list" where
  "new_rows before after = drop (length (rows before)) (rows after)"

definition row_count :: "'r table option \<Rightarrow> nat" where
  "row_count t = (case t of None \<Rightarrow> 0 | Some tbl \<Rightarrow> length (rows tbl))"

definition row_ids :: "'r table option \<Rightarrow> int list" where
  "row_ids t = (case t of None \<Rightarrow> [] | Some tbl \<Rightarrow> map row_id (rows tbl))"

definition product_rows :: "database \<Rightarrow> product row list" where
  "product_rows db = (case products_tbl db of None \<Rightarrow> [] | Some tbl \<Rightarrow> rows tbl)"

definition sale_rows :: "database \<Rightarrow> sale row list" where
  "sale_rows db = (case sales_tbl db of None \<Rightarrow> [] | Some tbl \<Rightarrow> rows tbl)"

text \<open>
  The rows a batch of \<open>n\<close> records becomes in a table whose sequence stands at
  \<open>first\<close>, inserted at time \<open>t\<close>.
\<close>

definition batch_rows :: "int \<Rightarrow> nat \<Rightarrow> 'r list \<Rightarrow> 'r row list" where
  "batch_rows first t rs =
     map (\<lambda>(i, r). \<lparr>row_id = first + int i, row_time = t, row_data = r\<rparr>) (zip [0..<length rs] rs)"

text \<open>
  A sale row's reference is sound when it is absent, or the identifier of a catalog
  row created no later than the sale row.
\<close>

definition ref_ok :: "product row list \<Rightarrow> sale row \<Rightarrow> bool" where
  "ref_ok prs s =
     (case product_id (row_data s) of
        None \<Rightarrow> True
      | Some p \<Rightarrow> (\<exists>r \<in> set prs. row_id r = p \<and> row_time r \<le> row_time s))"

definition refs_ok :: "database \<Rightarrow> bool" where
  "refs_ok db = (\<forall>s \<in> set (sale_rows db). ref_ok (product_rows db) s)"

text \<open>What holds between the steps of the loop.\<close>

definition loop_inv :: "locals \<Rightarrow> world \<Rightarrow> bool" where
  "loop_inv l w \<longleftrightarrow>
     conn_open w \<and> committed w = pending w \<and>
     products_tbl (pending w) \<noteq> None \<and> sales_tbl (pending w) \<noteq> None \<and>
     set (product_ids l) \<subseteq> row_id ` set (product_rows (pending w)) \<and>
     (\<forall>r \<in> set (product_rows (pending w)). row_time r \<le> stamp w) \<and>
     stamp w \<le> ops w \<and>
     refs_ok (pending w)"

text \<open>
  The world after a batch of rows \<open>ps\<close> (or \<open>ss\<close>) has been generated, inserted into the
  table \<open>pt\<close> (or \<open>st\<close>) and committed: \<open>d\<close> raw draws consumed, two driver calls made,
  no transaction left open.
\<close>

definition after_insert_products :: "product list \<Rightarrow> product table \<Rightarrow> world \<Rightarrow> world" where
  "after_insert_products ps pt w =
     w\<lparr>rng := rng w + 4 * length ps, ops := ops w + 2, txn_start := None,
       pending := (pending w)\<lparr>products_tbl :=
         Some (pt\<lparr>rows := rows pt @ batch_rows (next_id pt) (stamp w) ps,
                  next_id := next_id pt + int (length ps)\<rparr>)\<rparr>,
       committed := (pending w)\<lparr>products_tbl :=
         Some (pt\<lparr>rows := rows pt @ batch_rows (next_id pt) (stamp w) ps,
                  next_id := next_id pt + int (length ps)\<rparr>)\<rparr>\<rparr>"

definition draws_per_sale :: "int list \<Rightarrow> nat" where
  "draws_per_sale pool = (if pool = [] then 4 else 5)"

definition after_insert_sales :: "int list \<Rightarrow> sale list \<Rightarrow> sale table \<Rightarrow> world \<Rightarrow> world" where
  "after_insert_sales pool ss st w =
     w\<lparr>rng := rng w + draws_per_sale pool * length ss, ops := ops w + 2, txn_start := None,
       pending := (pending w)\<lparr>sales_tbl :=
         Some (st\<lparr>rows := rows st @ batch_rows (next_id st) (stamp w) ss,
                  next_id := next_id st + int (length ss)\<rparr>)\<rparr>,
       committed := (pending w)\<lparr>sales_tbl :=
         Some (st\<lparr>rows := rows st @ batch_rows (next_id st) (stamp w) ss,
                  next_id := next_id st + int (length ss)\<rparr>)\<rparr>\<rparr>"

text \<open>The result of \<open>SELECT id FROM products ORDER BY RANDOM() LIMIT limit\<close>, and the world after it.\<close>

definition random_sample :: "env \<Rightarrow> nat \<Rightarrow> product table \<Rightarrow> world \<Rightarrow> int list" where
  "random_sample env limit pt w =
     take limit (order_by_random (map (\<lambda>i. entropy env (rng w + i)) [0..<length (rows pt)])
       (map row_id (rows pt)))"

definition after_select :: "product table \<Rightarrow> world \<Rightarrow> world" where
  "after_select pt w =
     w\<lparr>ops := ops w + 1, txn_start := Some (stamp w), rng := rng w + length (rows pt)\<rparr>"

text \<open>The number of catalog items and of transactions in the committed store.\<close>

definition n_products :: "world \<Rightarrow> nat" where
  "n_products w = length (product_rows (committed w))"

definition n_sales :: "world \<Rightarrow> nat" where
  "n_sales w = length (sale_rows (committed w))"

text \<open>The world right after a first connection attempt that succeeds, on an empty store.\<close>

definition connected_world :: world where
  "connected_world = snd (psycopg2_connect quiet_env (initial_world empty_database))"

text \<open>The locals before the seeding.\<close>

definition no_locals :: locals where
  "no_locals = \<lparr>product_ids = [], iteration = 0, total_products = 0, total_sales = 0\<rparr>"

text \<open>An oracle whose driver call number \<open>k\<close> raises \<open>e\<close>, everything else going well.\<close>

definition faulty_env :: "nat \<Rightarrow> exn \<Rightarrow> env" where
  "faulty_env k e = quiet_env\<lparr>faults := (\<lambda>j. if j = k then Some e else None)\<rparr>"

section \<open>Proofs\<close>

subsection \<open>Connection Manager\<close>

lemma range_max_retries: "[0..<max_retries] = [0, 1, 2, 3, 4]"
  by (simp add: max_retries_def upt_rec)

lemma refusesE: "refuses env k \<Longrightarrow> \<exists>s. connect_outcome env k = Some (OperationalError s)"
  by (auto simp: refuses_def split: option.splits elim: is_OperationalError.elims)

lemmas step_defs = psycopg2_connect_def time_sleep_def blocking_call_def emit_def
  logger_log_def logger_info_def logger_error_def logger_critical_def Let_def

lemma retried_0: "retried 0 w w"
  by (simp add: retried_def new_events_def effects_def)

lemma new_events_trans:
  assumes "length (trace w) \<le> length (trace w1)" "take (length (trace w)) (trace w1) = trace w"
    "length (trace w1) \<le> length (trace w2)" "take (length (trace w1)) (trace w2) = trace w1"
  shows "new_events w w2 = new_events w w1 @ new_events w1 w2"
    and "take (length (trace w)) (trace w2) = trace w"
proof -
  obtain t1 where t1: "trace w1 = trace w @ t1"
    using assms(2) by (metis append_take_drop_id)
  obtain t2 where t2: "trace w2 = trace w1 @ t2"
    using assms(4) by (metis append_take_drop_id)
  show "new_events w w2 = new_events w w1 @ new_events w1 w2"
    by (simp add: new_events_def t1 t2)
  show "take (length (trace w)) (trace w2) = trace w"
    by (simp add: t1 t2)
qed

lemma retried_trans:
  assumes "retried j w w1" "retried k w1 w2"
  shows "retried (j + k) w w2"
proof -
  have n: "new_events w w2 = new_events w w1 @ new_events w1 w2"
    and t: "take (length (trace w)) (trace w2) = trace w"
    using assms new_events_trans[of w w1 w2] by (simp_all add: retried_def)
  show ?thesis
    using assms unfolding retried_def n effects_def
    by (simp add: t replicate_add)
qed

lemma attempt_refused:
  assumes "refuses env (connects w)" "faults env (ops w) = None" "attempt < max_retries - 1"
  shows "\<exists>w1. connect_attempts env (attempt # rest) w = connect_attempts env rest w1 \<and> retried 1 w w1"
proof -
  obtain s where s: "connect_outcome env (connects w) = Some (OperationalError s)"
    using refusesE[OF assms(1)] by blast
  have "connect_attempts env (attempt # rest) w = connect_attempts env rest
     (w\<lparr>connects := Suc (connects w),
        trace := trace w @ [Log INFO (Msg_attempt (Suc attempt) max_retries), ConnectAttempt,
          Log ERROR (Msg_connection_failed s), Log INFO (Msg_retrying retry_delay), Sleep retry_delay],
        ops := Suc (ops w)\<rparr>)" (is "_ = connect_attempts env rest ?w1")
    using assms(2,3) by (simp add: step_defs s)
  moreover have "retried 1 w ?w1"
    by (simp add: retried_def new_events_def effects_def)
  ultimately show ?thesis by blast
qed

lemma attempts_refused:
  "k \<le> length as \<Longrightarrow> \<forall>i<k. refuses env (connects w + i) \<Longrightarrow> uninterrupted env (ops w) k \<Longrightarrow>
   \<forall>i<k. as ! i < max_retries - 1 \<Longrightarrow>
   \<exists>w'. connect_attempts env as w = connect_attempts env (drop k as) w' \<and> retried k w w'"
proof (induction k arbitrary: as w)
  case 0
  then show ?case using retried_0 by auto
next
  case (Suc k)
  then obtain a rest where as: "as = a # rest" by (cases as) auto
  have "refuses env (connects w)" using Suc.prems(2) by force
  moreover have "faults env (ops w) = None" using Suc.prems(3) by (force simp: uninterrupted_def)
  moreover have "a < max_retries - 1" using Suc.prems(4) as by force
  ultimately obtain w1 where w1: "connect_attempts env as w = connect_attempts env rest w1"
    "retried 1 w w1"
    using attempt_refused as by blast
  have c: "connects w1 = Suc (connects w)" "ops w1 = Suc (ops w)"
    using w1(2) by (simp_all add: retried_def)
  have "k \<le> length rest" using Suc.prems(1) as by simp
  moreover have "\<forall>i<k. refuses env (connects w1 + i)"
    using Suc.prems(2) c by (metis Suc_less_eq add_Suc_shift)
  moreover have "uninterrupted env (ops w1) k"
    using Suc.prems(3) c unfolding uninterrupted_def by (metis Suc_less_eq add_Suc_shift)
  moreover have "\<forall>i<k. rest ! i < max_retries - 1"
    using Suc.prems(4) as by (metis Suc_less_eq nth_Cons_Suc)
  ultimately obtain w' where w': "connect_attempts env rest w1 = connect_attempts env (drop k rest) w'"
    "retried k w1 w'"
    using Suc.IH by blast
  have "retried (Suc k) w w'"
    using retried_trans[OF w1(2) w'(2)] by simp
  then show ?case
    using w1(1) w'(1) as by auto
qed

lemma attempt_accepted:
  assumes "connect_outcome env (connects w) = None"
  shows "connect_attempts env (attempt # rest) w =
    (Inr (Some (Conn (connects w))),
     w\<lparr>trace := trace w @ [Log INFO (Msg_attempt (attempt + 1) max_retries), ConnectAttempt, Log INFO Msg_connected],
       connects := connects w + 1, conn_open := True, pending := committed w, txn_start := None\<rparr>)"
  using assms by (simp add: step_defs)

lemma attempt_refused_last:
  assumes "connect_outcome env (connects w) = Some (OperationalError s)" "\<not> attempt < max_retries - 1"
  shows "connect_attempts env (attempt # rest) w =
    (Inl (ConnectFailure max_retries s),
     w\<lparr>trace := trace w @ [Log INFO (Msg_attempt (attempt + 1) max_retries), ConnectAttempt,
         Log ERROR (Msg_connection_failed s), Log CRITICAL (Msg_failed_to_connect max_retries)],
       connects := connects w + 1\<rparr>)"
  using assms by (simp add: step_defs)

lemma attempt_other_exception:
  assumes "connect_outcome env (connects w) = Some e" "\<not> is_OperationalError e"
  shows "connect_attempts env (attempt # rest) w =
    (Inl e, w\<lparr>trace := trace w @ [Log INFO (Msg_attempt (attempt + 1) max_retries), ConnectAttempt],
       connects := connects w + 1\<rparr>)"
  using assms by (cases e) (simp_all add: step_defs)


lemma retriedD:
  assumes "retried k w w'"
  shows "\<exists>t. trace w' = trace w @ t \<and> effects t = concat (replicate k [ConnectAttempt, Sleep retry_delay])
     \<and> length (filter is_failure_log t) = k \<and> filter is_critical_log t = []
     \<and> filter is_connected_log t = []"
    and "connects w' = connects w + k" and "ops w' = ops w + k" and "conn_open w' = conn_open w"
proof -
  have "trace w' = trace w @ new_events w w'"
    using assms unfolding retried_def new_events_def by (metis append_take_drop_id)
  then show "\<exists>t. trace w' = trace w @ t \<and> effects t = concat (replicate k [ConnectAttempt, Sleep retry_delay])
     \<and> length (filter is_failure_log t) = k \<and> filter is_critical_log t = []
     \<and> filter is_connected_log t = []"
    using assms unfolding retried_def by blast
qed (use assms in \<open>simp_all add: retried_def\<close>)

lemma drop_range: "k < n \<Longrightarrow> drop k [0..<n] = k # [Suc k..<n]"
  using upt_conv_Cons[of k n] by (simp add: drop_upt del: upt_Suc)

lemma replicate_pairs_4:
  "concat (replicate 4 [a, b]) = [a, b, a, b, a, b, a, b]"
  by (simp add: eval_nat_numeral)

text \<open>
  Claim C2. If the store refuses the first four connection attempts with an
  operational error and accepts the fifth, and no signal cuts the four waits short,
  \<open>get_db_connection\<close> returns the session opened by the fifth attempt, having logged
  exactly four failures, one success and no fatal message. If the store refuses all
  five attempts, \<open>get_db_connection\<close> makes exactly five attempts, sleeps 2 between
  consecutive attempts and not after the last, logs one fatal message and raises,
  and no session is open.
\<close>

theorem get_db_connection_retry_bound:
  "((\<forall>i<4. refuses env (connects w + i)) \<and> connect_outcome env (connects w + 4) = None \<and>
      uninterrupted env (ops w) 4 \<longrightarrow>
      (\<exists>w'. get_db_connection env w = (Inr (Some (Conn (connects w + 4))), w') \<and>
         connects w' = connects w + 5 \<and> conn_open w' \<and>
         length (filter is_failure_log (new_events w w')) = 4 \<and>
         filter is_connected_log (new_events w w') = [Log INFO Msg_connected] \<and>
         filter is_critical_log (new_events w w') = [])) \<and>
   ((\<forall>i<5. refuses env (connects w + i)) \<and> uninterrupted env (ops w) 4 \<longrightarrow>
      (\<exists>s w'. get_db_connection env w = (Inl (ConnectFailure 5 s), w') \<and>
         connects w' = connects w + 5 \<and> conn_open w' = conn_open w \<and>
         effects (new_events w w') =
           [ConnectAttempt, Sleep 2, ConnectAttempt, Sleep 2, ConnectAttempt, Sleep 2,
            ConnectAttempt, Sleep 2, ConnectAttempt] \<and>
         length (filter is_failure_log (new_events w w')) = 5 \<and>
         filter is_connected_log (new_events w w') = [] \<and>
         filter is_critical_log (new_events w w') = [Log CRITICAL (Msg_failed_to_connect 5)]))"
proof (intro conjI impI)
  define w0 where "w0 = logger_info Msg_attempting_to_connect w"
  have w0: "trace w0 = trace w @ [Log INFO Msg_attempting_to_connect]"
    "connects w0 = connects w" "ops w0 = ops w" "conn_open w0 = conn_open w"
    by (simp_all add: w0_def step_defs)
  have bound: "\<forall>i<4. [0..<max_retries] ! i < max_retries - 1"
    by (simp add: max_retries_def)
  have rest: "drop 4 [0..<max_retries] = [4]"
    by (simp add: max_retries_def upt_rec)
  {
    assume a: "(\<forall>i<4. refuses env (connects w + i)) \<and> connect_outcome env (connects w + 4) = None \<and>
      uninterrupted env (ops w) 4"
    then obtain w1 where w1: "connect_attempts env [0..<max_retries] w0 = connect_attempts env [4] w1"
      "retried 4 w0 w1"
      using attempts_refused[of 4 "[0..<max_retries]" env w0] bound rest w0
      by (auto simp: max_retries_def)
    obtain t where t: "trace w1 = trace w0 @ t" "length (filter is_failure_log t) = 4"
      "filter is_critical_log t = []" "filter is_connected_log t = []"
      using retriedD(1)[OF w1(2)] by blast
    have c: "connects w1 = connects w + 4" "conn_open w1 = conn_open w"
      using retriedD(2,4)[OF w1(2)] w0 by simp_all
    have "connect_outcome env (connects w1) = None" using a c by simp
    from attempt_accepted[OF this, of 4 "[]"] w1(1) t c w0
    show "\<exists>w'. get_db_connection env w = (Inr (Some (Conn (connects w + 4))), w') \<and>
         connects w' = connects w + 5 \<and> conn_open w' \<and>
         length (filter is_failure_log (new_events w w')) = 4 \<and>
         filter is_connected_log (new_events w w') = [Log INFO Msg_connected] \<and>
         filter is_critical_log (new_events w w') = []"
      by (simp add: get_db_connection_def w0_def[symmetric] new_events_def)
  }
  {
    assume a: "(\<forall>i<5. refuses env (connects w + i)) \<and> uninterrupted env (ops w) 4"
    then have "\<forall>i<4. refuses env (connects w0 + i)" using w0 by simp
    then obtain w1 where w1: "connect_attempts env [0..<max_retries] w0 = connect_attempts env [4] w1"
      "retried 4 w0 w1"
      using attempts_refused[of 4 "[0..<max_retries]" env w0] bound rest w0 a
      by (auto simp: max_retries_def)
    obtain t where t: "trace w1 = trace w0 @ t" "length (filter is_failure_log t) = 4"
      "filter is_critical_log t = []" "filter is_connected_log t = []"
      "effects t = concat (replicate 4 [ConnectAttempt, Sleep retry_delay])"
      using retriedD(1)[OF w1(2)] by blast
    have c: "connects w1 = connects w + 4" "conn_open w1 = conn_open w"
      using retriedD(2,4)[OF w1(2)] w0 by simp_all
    have "refuses env (connects w1)" using a c by simp
    then obtain s where s: "connect_outcome env (connects w1) = Some (OperationalError s)"
      using refusesE by blast
    have last: "\<not> 4 < max_retries - 1" by (simp add: max_retries_def)
    from attempt_refused_last[OF s last, of "[]"] w1(1) t c w0
    show "\<exists>s w'. get_db_connection env w = (Inl (ConnectFailure 5 s), w') \<and>
         connects w' = connects w + 5 \<and> conn_open w' = conn_open w \<and>
         effects (new_events w w') =
           [ConnectAttempt, Sleep 2, ConnectAttempt, Sleep 2, ConnectAttempt, Sleep 2,
            ConnectAttempt, Sleep 2, ConnectAttempt] \<and>
         length (filter is_failure_log (new_events w w')) = 5 \<and>
         filter is_connected_log (new_events w w') = [] \<and>
         filter is_critical_log (new_events w w') = [Log CRITICAL (Msg_failed_to_connect 5)]"
      by (simp add: get_db_connection_def w0_def[symmetric] new_events_def effects_def
          replicate_pairs_4 max_retries_def retry_delay_def)
  }
qed

theorem get_db_connection_retry_bound_witness:
  "(\<exists>w'. get_db_connection (refusing_env 4) (initial_world empty_database) = (Inr (Some (Conn 4)), w') \<and>
      connects w' = 5 \<and> conn_open w' \<and>
      length (filter is_failure_log (trace w')) = 4 \<and>
      filter is_connected_log (trace w') = [Log INFO Msg_connected] \<and>
      filter is_critical_log (trace w') = []) \<and>
   (\<exists>s w'. get_db_connection (refusing_env 5) (initial_world empty_database) = (Inl (ConnectFailure 5 s), w') \<and>
      connects w' = 5 \<and> \<not> conn_open w' \<and>
      effects (trace w') =
        [ConnectAttempt, Sleep 2, ConnectAttempt, Sleep 2, ConnectAttempt, Sleep 2,
         ConnectAttempt, Sleep 2, ConnectAttempt] \<and>
      length (filter is_failure_log (trace w')) = 5 \<and>
      filter is_connected_log (trace w') = [] \<and>
      filter is_critical_log (trace w') = [Log CRITICAL (Msg_failed_to_connect 5)])"
  using get_db_connection_retry_bound [of "refusing_env 4" "initial_world empty_database"]
    get_db_connection_retry_bound [of "refusing_env 5" "initial_world empty_database"]
  by (simp add: refusing_env_def quiet_env_def refuses_def uninterrupted_def initial_world_def
      new_events_def)

text \<open>
  Claim C10. Only \<open>psycopg2.OperationalError\<close> is retried. If attempt \<open>k + 1\<close> (after
  \<open>k\<close> refused attempts) raises any other exception \<open>e\<close>, \<open>get_db_connection\<close> raises
  \<open>e\<close> itself at once: the failed connection call is the last thing that happened, so
  there is no further attempt, no sleep after it and no fatal log line, and only
  \<open>k + 1\<close> of the five attempts are used.
\<close>

theorem get_db_connection_other_exception:
  assumes "k < max_retries" "\<forall>i<k. refuses env (connects w + i)" "uninterrupted env (ops w) k"
    "connect_outcome env (connects w + k) = Some e" "\<not> is_OperationalError e"
  shows "\<exists>w'. get_db_connection env w = (Inl e, w') \<and>
     connects w' = connects w + k + 1 \<and> ops w' = ops w + k \<and> conn_open w' = conn_open w \<and>
     effects (new_events w w') = concat (replicate k [ConnectAttempt, Sleep retry_delay]) @ [ConnectAttempt] \<and>
     last (trace w') = ConnectAttempt \<and>
     filter is_critical_log (new_events w w') = []"
proof -
  define w0 where "w0 = logger_info Msg_attempting_to_connect w"
  have w0: "trace w0 = trace w @ [Log INFO Msg_attempting_to_connect]"
    "connects w0 = connects w" "ops w0 = ops w" "conn_open w0 = conn_open w"
    by (simp_all add: w0_def step_defs)
  have bound: "\<forall>i<k. [0..<max_retries] ! i < max_retries - 1"
    using assms(1) by auto
  have rest: "drop k [0..<max_retries] = k # [Suc k..<max_retries]"
    using assms(1) by (rule drop_range)
  obtain w1 where w1: "connect_attempts env [0..<max_retries] w0 =
      connect_attempts env (k # [Suc k..<max_retries]) w1" "retried k w0 w1"
    using attempts_refused[of k "[0..<max_retries]" env w0] bound rest w0 assms(1,2,3)
    by auto
  obtain t where t: "trace w1 = trace w0 @ t"
    "filter is_critical_log t = []"
    "effects t = concat (replicate k [ConnectAttempt, Sleep retry_delay])"
    using retriedD(1)[OF w1(2)] by blast
  have c: "connects w1 = connects w + k" "conn_open w1 = conn_open w" "ops w1 = ops w + k"
    using retriedD(2,3,4)[OF w1(2)] w0 by simp_all
  have "connect_outcome env (connects w1) = Some e" using assms(4) c by simp
  from attempt_other_exception[OF this assms(5), of k "[Suc k..<max_retries]"] w1(1) t c w0
  show ?thesis
    by (simp add: get_db_connection_def w0_def[symmetric] new_events_def effects_def)
qed

theorem get_db_connection_other_exception_witness:
  "\<exists>w'. get_db_connection (failing_connect_env 2 (ProgrammingError ''bad dsn'')) (initial_world empty_database)
       = (Inl (ProgrammingError ''bad dsn''), w') \<and>
     connects w' = 3 \<and> ops w' = 2 \<and> \<not> conn_open w' \<and>
     effects (trace w') = [ConnectAttempt, Sleep 2, ConnectAttempt, Sleep 2, ConnectAttempt] \<and>
     last (trace w') = ConnectAttempt \<and>
     filter is_critical_log (trace w') = []"
  using get_db_connection_other_exception [of 2 "failing_connect_env 2 (ProgrammingError ''bad dsn'')"
      "initial_world empty_database" "ProgrammingError ''bad dsn''"]
  by (simp add: failing_connect_env_def quiet_env_def refuses_def uninterrupted_def initial_world_def
      new_events_def max_retries_def retry_delay_def eval_nat_numeral)


lemma bind_io_Inr_iff:
  "bind_io m f s = (Inr b, s') \<longleftrightarrow> (\<exists>a s1. m s = (Inr a, s1) \<and> f a s1 = (Inr b, s'))"
  by (auto simp: bind_io_def split: prod.splits sum.splits)

lemma bind_io_Inl_iff:
  "bind_io m f s = (Inl e, s') \<longleftrightarrow>
     m s = (Inl e, s') \<or> (\<exists>a s1. m s = (Inr a, s1) \<and> f a s1 = (Inl e, s'))"
  by (auto simp: bind_io_def split: prod.splits sum.splits)

lemma bind_io_step: "m s = (Inr a, s1) \<Longrightarrow> bind_io m f s = f a s1"
  by (simp add: bind_io_def)

lemma bind_io_effect [simp]: "bind_io (effect_io g) f s = f () (g s)"
  by (simp add: bind_io_def effect_io_def)

lemma bind_io_return [simp]: "bind_io (return_io a) f s = f a s"
  by (simp add: bind_io_def return_io_def)

lemma uninterruptedD: "uninterrupted env k n \<Longrightarrow> i < n \<Longrightarrow> faults env (k + i) = None"
  by (simp add: uninterrupted_def)

lemma uninterrupted_mono: "uninterrupted env k n \<Longrightarrow> m \<le> n \<Longrightarrow> uninterrupted env k m"
  by (simp add: uninterrupted_def)

lemma uninterrupted_shift: "uninterrupted env k (m + n) \<Longrightarrow> uninterrupted env (k + m) n"
  by (simp add: uninterrupted_def add.assoc)

lemma provisioned_idem: "provisioned (provisioned db) = provisioned db"
  by (simp add: provisioned_def ensure_table_def)

lemma cursor_execute_ok:
  assumes "faults env (ops w) = None"
  shows "cursor_execute env stmt w =
     run_statement env stmt (case txn_start w of None \<Rightarrow> ops w | Some t \<Rightarrow> t)
       (w\<lparr>ops := ops w + 1, txn_start := Some (case txn_start w of None \<Rightarrow> ops w | Some t \<Rightarrow> t)\<rparr>)"
  using assms by (simp add: cursor_execute_def blocking_call_def Let_def)

lemma create_tables_ok:
  assumes "conn_open w" "uninterrupted env (ops w) 5"
  shows "create_tables env (Some c) w =
    (Inr (), w\<lparr>trace := trace w @ [Log INFO Msg_creating_tables, Log INFO Msg_products_table_ready,
                 Log INFO Msg_sales_table_ready, Log INFO Msg_products_replica_identity,
                 Log INFO Msg_sales_replica_identity, Log INFO Msg_tables_created],
              ops := ops w + 5, pending := provisioned (pending w),
              committed := provisioned (pending w), txn_start := None\<rparr>)"
proof -
  have f: "faults env (ops w) = None" "faults env (Suc (ops w)) = None"
    "faults env (Suc (Suc (ops w))) = None" "faults env (Suc (Suc (Suc (ops w)))) = None"
    "faults env (Suc (Suc (Suc (Suc (ops w))))) = None"
    using uninterruptedD[OF assms(2), of 0] uninterruptedD[OF assms(2), of 1]
      uninterruptedD[OF assms(2), of 2] uninterruptedD[OF assms(2), of 3]
      uninterruptedD[OF assms(2), of 4]
    by (simp_all add: eval_nat_numeral)
  show ?thesis
    using assms(1) f
    by (cases "products_tbl (pending w)"; cases "sales_tbl (pending w)")
       (simp_all add: create_tables_def the_conn_def conn_cursor_def cursor_execute_def
         blocking_call_def conn_commit_def bind_io_def effect_io_def logger_info_def
         logger_log_def emit_def provisioned_def ensure_table_def Let_def)
qed

lemma create_tables_ok_ex:
  assumes "conn_open w" "uninterrupted env (ops w) 5"
  shows "\<exists>w1. create_tables env (Some c) w = (Inr (), w1) \<and> conn_open w1 \<and>
     ops w1 = ops w + 5 \<and> pending w1 = provisioned (pending w) \<and>
     committed w1 = provisioned (pending w) \<and> txn_start w1 = None \<and> rng w1 = rng w"
  using assms(1) by (simp add: create_tables_ok[OF assms])

text \<open>
  Claim C7. \<open>create_tables\<close> is idempotent: on an open session, with no driver call
  failing, two invocations in sequence both succeed; the first leaves exactly the two
  tables \<open>products\<close> and \<open>sales\<close>, and the second changes nothing in the store.
\<close>

theorem create_tables_idempotent:
  assumes "conn_open w" "uninterrupted env (ops w) 10"
  shows "\<exists>w1 w2. create_tables env (Some c) w = (Inr (), w1) \<and>
      create_tables env (Some c) w1 = (Inr (), w2) \<and>
      committed w1 = provisioned (pending w) \<and>
      table_names (committed w1) = [Products, Sales] \<and>
      committed w2 = committed w1 \<and> pending w2 = pending w1 \<and>
      table_names (committed w2) = [Products, Sales]"
proof -
  obtain w1 where 1: "create_tables env (Some c) w = (Inr (), w1)"
    and w1: "conn_open w1" "ops w1 = ops w + 5" "pending w1 = provisioned (pending w)"
      "committed w1 = provisioned (pending w)"
    using create_tables_ok_ex[OF assms(1) uninterrupted_mono[OF assms(2)], of c] by auto
  have "uninterrupted env (ops w1) 5"
    using uninterrupted_shift[of env "ops w" 5 5] assms(2) w1(2) by simp
  from create_tables_ok_ex[OF w1(1) this, of c]
  obtain w2 where 2: "create_tables env (Some c) w1 = (Inr (), w2)"
    and w2: "pending w2 = provisioned (pending w1)" "committed w2 = provisioned (pending w1)"
    by auto
  have n: "table_names (provisioned (pending w)) = [Products, Sales]"
    by (simp add: provisioned_def table_names_def)
  show ?thesis
    using 1 2 w1 w2 n by (simp add: provisioned_idem)
qed

theorem create_tables_idempotent_witness:
  "\<exists>w1 w2. create_tables quiet_env (Some (Conn 0)) connected_world = (Inr (), w1) \<and>
      create_tables quiet_env (Some (Conn 0)) w1 = (Inr (), w2) \<and>
      committed w1 = provisioned empty_database \<and>
      table_names (committed w1) = [Products, Sales] \<and>
      committed w2 = committed w1 \<and> pending w2 = pending w1 \<and>
      table_names (committed w2) = [Products, Sales]"
  using create_tables_idempotent [of connected_world quiet_env "Conn 0"]
  by (simp add: connected_world_def psycopg2_connect_def quiet_env_def initial_world_def
      emit_def uninterrupted_def Let_def)



subsection \<open>Record factory: what is generated\<close>

lemma Suc3_eq: "Suc (Suc (Suc n)) = n + 3"
  by simp

lemma Suc4_eq: "Suc (Suc (Suc (Suc n))) = n + 4"
  by simp

lemma generate_product_eq:
  "generate_product env w =
     (Inr \<lparr>name = fake_catch_phrase env (rng w),
           category = categories ! (entropy env (rng w + 1) mod 7),
           price = py_round (float_add lit_5_99 (float_mul (float_sub lit_999_99 lit_5_99)
                     (of_nat (entropy env (rng w + 2) mod 2 ^ 53) / 2 ^ 53))) 2,
           stock_quantity = int (entropy env (rng w + 3) mod 501)\<rparr>,
      w\<lparr>rng := rng w + 4\<rparr>)"
  by (simp add: generate_product_def faker_def random_choice_def random_uniform_def
      random_random_def random_randint_def draw_def bind_io_def return_io_def categories_def
      Suc3_eq)

lemma generate_sale_eq:
  "generate_sale env pool w =
     (if pool \<noteq> [] then
        (Inr \<lparr>product_id = Some (pool ! (entropy env (rng w + 2) mod length pool)),
              customer_name = fake_name env (rng w + 3),
              customer_email = fake_email env (rng w + 4),
              quantity = 1 + int (entropy env (rng w) mod 10),
              total_amount = py_round (float_mul
                (py_round (float_add lit_5_99 (float_mul (float_sub lit_999_99 lit_5_99)
                     (of_nat (entropy env (rng w + 1) mod 2 ^ 53) / 2 ^ 53))) 2)
                (float_of_int (1 + int (entropy env (rng w) mod 10)))) 2\<rparr>,
         w\<lparr>rng := rng w + 5\<rparr>)
      else
        (Inr \<lparr>product_id = None,
              customer_name = fake_name env (rng w + 2),
              customer_email = fake_email env (rng w + 3),
              quantity = 1 + int (entropy env (rng w) mod 10),
              total_amount = py_round (float_mul
                (py_round (float_add lit_5_99 (float_mul (float_sub lit_999_99 lit_5_99)
                     (of_nat (entropy env (rng w + 1) mod 2 ^ 53) / 2 ^ 53))) 2)
                (float_of_int (1 + int (entropy env (rng w) mod 10)))) 2\<rparr>,
         w\<lparr>rng := rng w + 4\<rparr>))"
  by (simp add: generate_sale_def faker_def random_choice_def random_uniform_def
      random_random_def random_randint_def draw_def bind_io_def return_io_def Let_def
      Suc3_eq Suc4_eq add.commute)

lemma generate_sale_ref:
  "\<exists>s. generate_sale env pool w = (Inr s, w\<lparr>rng := rng w + draws_per_sale pool\<rparr>) \<and>
     (case product_id s of None \<Rightarrow> pool = [] | Some p \<Rightarrow> p \<in> set pool)"
  by (simp add: generate_sale_eq draws_per_sale_def)

lemma generate_product_ok:
  "\<exists>p. generate_product env w = (Inr p, w\<lparr>rng := rng w + 4\<rparr>)"
  by (simp add: generate_product_eq)

lemma rng_twice: "w\<lparr>rng := a\<rparr>\<lparr>rng := b\<rparr> = w\<lparr>rng := b\<rparr>"
  by simp

lemma generate_products_ok:
  "\<exists>ps. generate_products env n w = (Inr ps, w\<lparr>rng := rng w + 4 * n\<rparr>) \<and> length ps = n"
proof (induction n arbitrary: w)
  case 0
  then show ?case by simp
next
  case (Suc n)
  obtain p where p: "generate_product env w = (Inr p, w\<lparr>rng := rng w + 4\<rparr>)"
    using generate_product_ok by blast
  obtain ps where ps: "generate_products env n (w\<lparr>rng := rng w + 4\<rparr>) =
      (Inr ps, w\<lparr>rng := rng w + 4\<rparr>\<lparr>rng := rng (w\<lparr>rng := rng w + 4\<rparr>) + 4 * n\<rparr>)" "length ps = n"
    using Suc.IH by blast
  have "rng w + 4 + 4 * n = rng w + 4 * Suc n" by simp
  then show ?case
    using p ps by (simp del: mult_Suc_right add: rng_twice)
qed

lemma generate_sales_ok:
  "\<exists>ss. generate_sales env pool n w = (Inr ss, w\<lparr>rng := rng w + draws_per_sale pool * n\<rparr>) \<and>
     length ss = n \<and>
     (\<forall>s \<in> set ss. case product_id s of None \<Rightarrow> pool = [] | Some p \<Rightarrow> p \<in> set pool)"
proof (induction n arbitrary: w)
  case 0
  then show ?case by simp
next
  case (Suc n)
  obtain s where s: "generate_sale env pool w = (Inr s, w\<lparr>rng := rng w + draws_per_sale pool\<rparr>)"
    "case product_id s of None \<Rightarrow> pool = [] | Some p \<Rightarrow> p \<in> set pool"
    using generate_sale_ref by blast
  obtain ss where ss: "generate_sales env pool n (w\<lparr>rng := rng w + draws_per_sale pool\<rparr>) =
      (Inr ss, w\<lparr>rng := rng w + draws_per_sale pool\<rparr>
        \<lparr>rng := rng (w\<lparr>rng := rng w + draws_per_sale pool\<rparr>) + draws_per_sale pool * n\<rparr>)"
    "length ss = n"
    "\<forall>s \<in> set ss. case product_id s of None \<Rightarrow> pool = [] | Some p \<Rightarrow> p \<in> set pool"
    using Suc.IH by blast
  have "rng w + draws_per_sale pool + draws_per_sale pool * n = rng w + draws_per_sale pool * Suc n"
    by simp
  then show ?case
    using s ss by (simp del: mult_Suc_right)
qed

subsection \<open>Driver calls\<close>

lemma paginate_one_page:
  "seq \<noteq> [] \<Longrightarrow> length seq \<le> 100 \<Longrightarrow> paginate seq = [seq]"
  by (simp add: paginate.simps[of seq] paginate.simps[of "[]"] page_size_def)

lemma execute_values_one_page:
  "argslist \<noteq> [] \<Longrightarrow> length argslist \<le> 100 \<Longrightarrow>
   execute_values env cur sql argslist w = cursor_execute env (sql argslist) w"
  by (simp add: execute_values_def paginate_one_page split: prod.splits sum.splits)

lemma cursor_execute_Inr_iff:
  "cursor_execute env stmt w = (Inr r, w') \<longleftrightarrow>
     faults env (ops w) = None \<and>
     run_statement env stmt (stamp w) (w\<lparr>ops := ops w + 1, txn_start := Some (stamp w)\<rparr>) = (Inr r, w')"
  by (auto simp: cursor_execute_def blocking_call_def stamp_def Let_def split: option.splits)

lemma conn_commit_Inr_iff:
  "conn_commit env c w = (Inr u, w') \<longleftrightarrow>
     faults env (ops w) = None \<and>
     w' = w\<lparr>ops := ops w + 1, committed := pending w, txn_start := None\<rparr>"
  by (auto simp: conn_commit_def blocking_call_def split: option.splits)

lemma cursor_fetchall_Inr_iff:
  "cursor_fetchall cur w = (Inr ids, w') \<longleftrightarrow> cur = Some ids \<and> w' = w"
  by (auto simp: cursor_fetchall_def split: option.splits)

lemma conn_cursor_Inr_iff:
  "conn_cursor c w = (Inr cur, w') \<longleftrightarrow> conn_open w \<and> cur = None \<and> w' = w"
  by (auto simp: conn_cursor_def)

lemma the_conn_Inr_iff:
  "the_conn co w = (Inr c, w') \<longleftrightarrow> co = Some c \<and> w' = w"
  by (auto simp: the_conn_def split: option.splits)

lemma insert_rows_ids:
  "insert_rows t rs tbl = (tbl', ids) \<Longrightarrow>
     ids = map (\<lambda>i. next_id tbl + int i) [0..<length rs] \<and>
     rows tbl' = rows tbl @ map (\<lambda>(i, r). \<lparr>row_id = i, row_time = t, row_data = r\<rparr>) (zip ids rs) \<and>
     next_id tbl' = next_id tbl + int (length rs) \<and>
     replica_identity_full tbl' = replica_identity_full tbl"
  by (auto simp: insert_rows_def Let_def)


lemma insert_rows_eq:
  "insert_rows t rs tbl =
     (tbl\<lparr>rows := rows tbl @ batch_rows (next_id tbl) t rs,
          next_id := next_id tbl + int (length rs)\<rparr>,
      map (\<lambda>i. next_id tbl + int i) [0..<length rs])"
  by (simp add: insert_rows_def batch_rows_def Let_def zip_map1 case_prod_unfold)

lemma map_after_fst: "map (\<lambda>x. f (fst x)) zs = map f (map fst zs)"
  by (simp add: o_def)

lemma map_after_snd: "map (\<lambda>x. f (snd x)) zs = map f (map snd zs)"
  by (simp add: o_def)

lemma map_fst_zip_upt: "map (\<lambda>x. f (fst x)) (zip [0..<length rs] rs) = map f [0..<length rs]"
  unfolding map_after_fst by simp

lemma map_snd_zip_upt: "map (\<lambda>x. f (snd x)) (zip [0..<length rs] rs) = map f rs"
  unfolding map_after_snd by simp

lemma batch_rows_ids: "map row_id (batch_rows first t rs) = map (\<lambda>i. first + int i) [0..<length rs]"
  using map_fst_zip_upt[of "\<lambda>i. first + int i" rs]
  by (simp add: batch_rows_def case_prod_unfold o_def)

lemma batch_rows_data: "map row_data (batch_rows first t rs) = rs"
  using map_snd_zip_upt[of "\<lambda>x. x" rs]
  by (simp add: batch_rows_def case_prod_unfold o_def)

lemma batch_rows_time: "r \<in> set (batch_rows first t rs) \<Longrightarrow> row_time r = t"
  by (auto simp: batch_rows_def)

lemma length_batch_rows [simp]: "length (batch_rows first t rs) = length rs"
  by (simp add: batch_rows_def)

lemma run_insert_products_Inr_iff:
  "run_statement env (InsertProducts ps) t w = (Inr r, w') \<longleftrightarrow>
     (\<exists>pt. products_tbl (pending w) = Some pt \<and>
        r = Some (map (\<lambda>i. next_id pt + int i) [0..<length ps]) \<and>
        w' = w\<lparr>pending := (pending w)\<lparr>products_tbl :=
               Some (pt\<lparr>rows := rows pt @ batch_rows (next_id pt) t ps,
                        next_id := next_id pt + int (length ps)\<rparr>)\<rparr>\<rparr>)"
  by (auto simp: insert_rows_eq split: option.splits)

lemma run_insert_sales_Inr_iff:
  "run_statement env (InsertSales ss) t w = (Inr r, w') \<longleftrightarrow>
     (\<exists>st. sales_tbl (pending w) = Some st \<and>
        r = Some (map (\<lambda>i. next_id st + int i) [0..<length ss]) \<and>
        w' = w\<lparr>pending := (pending w)\<lparr>sales_tbl :=
               Some (st\<lparr>rows := rows st @ batch_rows (next_id st) t ss,
                        next_id := next_id st + int (length ss)\<rparr>)\<rparr>\<rparr>)"
  by (auto simp: insert_rows_eq split: option.splits)

lemma run_select_Inr_iff:
  "run_statement env (SelectRandomProductIds limit) t w = (Inr r, w') \<longleftrightarrow>
     (\<exists>pt. products_tbl (pending w) = Some pt \<and>
        r = Some (take limit (order_by_random (map (\<lambda>i. entropy env (rng w + i)) [0..<length (rows pt)])
                    (map row_id (rows pt)))) \<and>
        w' = w\<lparr>rng := rng w + length (rows pt)\<rparr>)"
  by (auto simp: Let_def split: option.splits)

lemma stamp_simps [simp]:
  "stamp (w\<lparr>rng := r\<rparr>) = stamp w"
  "stamp (w\<lparr>trace := tr\<rparr>) = stamp w"
  "stamp (w\<lparr>pending := p\<rparr>) = stamp w"
  "stamp (w\<lparr>committed := d\<rparr>) = stamp w"
  "stamp (w\<lparr>conn_open := b\<rparr>) = stamp w"
  "stamp (w\<lparr>txn_start := Some t\<rparr>) = t"
  "stamp (w\<lparr>txn_start := None\<rparr>) = ops w"
  by (simp_all add: stamp_def split: option.splits)

lemma cursor_execute_run:
  "faults env (ops w) = None \<Longrightarrow>
   cursor_execute env stmt w =
     run_statement env stmt (stamp w) (w\<lparr>ops := ops w + 1, txn_start := Some (stamp w)\<rparr>)"
  by (simp add: cursor_execute_def blocking_call_def stamp_def Let_def)

lemma cursor_execute_fault:
  "faults env (ops w) = Some e \<Longrightarrow> cursor_execute env stmt w = (Inl e, w\<lparr>ops := ops w + 1\<rparr>)"
  by (simp add: cursor_execute_def blocking_call_def)

lemma conn_commit_ok:
  "faults env (ops w) = None \<Longrightarrow>
   conn_commit env c w = (Inr (), w\<lparr>ops := ops w + 1, committed := pending w, txn_start := None\<rparr>)"
  by (simp add: conn_commit_def blocking_call_def)

lemma conn_commit_fault:
  "faults env (ops w) = Some e \<Longrightarrow> conn_commit env c w = (Inl e, w\<lparr>ops := ops w + 1\<rparr>)"
  by (simp add: conn_commit_def blocking_call_def)

lemma run_insert_products_ok:
  "products_tbl (pending w) = Some pt \<Longrightarrow>
   run_statement env (InsertProducts ps) t w =
     (Inr (Some (map (\<lambda>i. next_id pt + int i) [0..<length ps])),
      w\<lparr>pending := (pending w)\<lparr>products_tbl :=
          Some (pt\<lparr>rows := rows pt @ batch_rows (next_id pt) t ps,
                   next_id := next_id pt + int (length ps)\<rparr>)\<rparr>\<rparr>)"
  by (simp add: insert_rows_eq)

lemma run_insert_sales_ok:
  "sales_tbl (pending w) = Some st \<Longrightarrow>
   run_statement env (InsertSales ss) t w =
     (Inr (Some (map (\<lambda>i. next_id st + int i) [0..<length ss])),
      w\<lparr>pending := (pending w)\<lparr>sales_tbl :=
          Some (st\<lparr>rows := rows st @ batch_rows (next_id st) t ss,
                   next_id := next_id st + int (length ss)\<rparr>)\<rparr>\<rparr>)"
  by (simp add: insert_rows_eq)

lemma run_insert_products_undefined:
  "products_tbl (pending w) = None \<Longrightarrow>
   run_statement env (InsertProducts ps) t w = (Inl undefined_table, w)"
  by simp

lemma run_insert_sales_undefined:
  "sales_tbl (pending w) = None \<Longrightarrow>
   run_statement env (InsertSales ss) t w = (Inl undefined_table, w)"
  by simp



lemma insert_products_ok:
  assumes "1 \<le> count" "count \<le> 100" "conn_open w" "products_tbl (pending w) = Some pt"
    "faults env (ops w) = None" "faults env (Suc (ops w)) = None"
    "generate_products env (nat count) w = (Inr ps, w\<lparr>rng := rng w + 4 * nat count\<rparr>)"
    "length ps = nat count"
  shows "insert_products env (Some c) count w =
     (Inr (map (\<lambda>i. next_id pt + int i) [0..<nat count]), after_insert_products ps pt w)"
proof -
  have ne: "ps \<noteq> []" "length ps \<le> 100"
    using assms(1,2,8) by auto
  show ?thesis
    using assms(3-6,8)
    by (simp add: insert_products_def bind_io_def assms(7) the_conn_def conn_cursor_def
        execute_values_one_page[OF ne] cursor_execute_run run_insert_products_ok
        cursor_fetchall_def conn_commit_ok effect_io_def return_io_def logger_debug_def
        logger_log_def after_insert_products_def del: run_statement.simps)
qed


lemma insert_products_InrD:
  assumes "insert_products env co count w = (Inr ids, w')" "1 \<le> count" "count \<le> 100"
  shows "\<exists>c ps pt. co = Some c \<and> conn_open w \<and>
        faults env (ops w) = None \<and> faults env (Suc (ops w)) = None \<and>
        length ps = nat count \<and> products_tbl (pending w) = Some pt \<and>
        ids = map (\<lambda>i. next_id pt + int i) [0..<nat count] \<and>
        w' = after_insert_products ps pt w"
proof -
  obtain ps where ps: "generate_products env (nat count) w = (Inr ps, w\<lparr>rng := rng w + 4 * nat count\<rparr>)"
    "length ps = nat count"
    using generate_products_ok by blast
  have ne: "ps \<noteq> []" "length ps \<le> 100"
    using ps(2) assms by auto
  note D = insert_products_def bind_io_def ps(1) the_conn_def conn_cursor_def
    execute_values_one_page[OF ne] cursor_fetchall_def
  obtain c where c: "co = Some c"
    using assms(1) by (cases co) (simp_all add: D)
  have op: "conn_open w"
    using assms(1) c by (cases "conn_open w") (simp_all add: D)
  have f1: "faults env (ops w) = None"
    using assms(1) c op by (cases "faults env (ops w)") (simp_all add: D cursor_execute_fault)
  obtain pt where pt: "products_tbl (pending w) = Some pt"
    using assms(1) c op f1
    by (cases "products_tbl (pending w)")
       (simp_all add: D cursor_execute_run run_insert_products_undefined del: run_statement.simps)
  have f2: "faults env (Suc (ops w)) = None"
    using assms(1) c op f1 pt
    by (cases "faults env (Suc (ops w))")
       (simp_all add: D cursor_execute_run run_insert_products_ok conn_commit_fault
         del: run_statement.simps)
  have "insert_products env (Some c) count w =
     (Inr (map (\<lambda>i. next_id pt + int i) [0..<nat count]), after_insert_products ps pt w)"
    using insert_products_ok[OF assms(2,3) op pt f1 f2 ps] .
  then show ?thesis
    using assms(1) c op f1 f2 pt ps(2) by auto
qed

lemma insert_sales_ok:
  assumes "1 \<le> count" "count \<le> 100" "conn_open w" "sales_tbl (pending w) = Some st"
    "faults env (ops w) = None" "faults env (Suc (ops w)) = None"
    "generate_sales env pool (nat count) w =
       (Inr ss, w\<lparr>rng := rng w + draws_per_sale pool * nat count\<rparr>)"
    "length ss = nat count"
  shows "insert_sales env (Some c) pool count w = (Inr None, after_insert_sales pool ss st w)"
proof -
  have ne: "ss \<noteq> []" "length ss \<le> 100"
    using assms(1,2,8) by auto
  show ?thesis
    using assms(3-6,8)
    by (simp add: insert_sales_def bind_io_def assms(7) the_conn_def conn_cursor_def
        execute_values_one_page[OF ne] cursor_execute_run run_insert_sales_ok
        cursor_fetchall_def conn_commit_ok effect_io_def return_io_def logger_debug_def
        logger_log_def after_insert_sales_def del: run_statement.simps)
qed

lemma insert_sales_InrD:
  assumes "insert_sales env co pool count w = (Inr r, w')" "1 \<le> count" "count \<le> 100"
  shows "\<exists>c ss st. co = Some c \<and> conn_open w \<and>
        faults env (ops w) = None \<and> faults env (Suc (ops w)) = None \<and>
        length ss = nat count \<and> sales_tbl (pending w) = Some st \<and>
        (\<forall>s \<in> set ss. case product_id s of None \<Rightarrow> pool = [] | Some p \<Rightarrow> p \<in> set pool) \<and>
        r = None \<and> w' = after_insert_sales pool ss st w"
proof -
  obtain ss where ss: "generate_sales env pool (nat count) w =
      (Inr ss, w\<lparr>rng := rng w + draws_per_sale pool * nat count\<rparr>)"
    "length ss = nat count"
    "\<forall>s \<in> set ss. case product_id s of None \<Rightarrow> pool = [] | Some p \<Rightarrow> p \<in> set pool"
    using generate_sales_ok by blast
  have ne: "ss \<noteq> []" "length ss \<le> 100"
    using ss(2) assms by auto
  note D = insert_sales_def bind_io_def ss(1) the_conn_def conn_cursor_def
    execute_values_one_page[OF ne] cursor_fetchall_def
  obtain c where c: "co = Some c"
    using assms(1) by (cases co) (simp_all add: D)
  have op: "conn_open w"
    using assms(1) c by (cases "conn_open w") (simp_all add: D)
  have f1: "faults env (ops w) = None"
    using assms(1) c op by (cases "faults env (ops w)") (simp_all add: D cursor_execute_fault)
  obtain st where st: "sales_tbl (pending w) = Some st"
    using assms(1) c op f1
    by (cases "sales_tbl (pending w)")
       (simp_all add: D cursor_execute_run run_insert_sales_undefined del: run_statement.simps)
  have f2: "faults env (Suc (ops w)) = None"
    using assms(1) c op f1 st
    by (cases "faults env (Suc (ops w))")
       (simp_all add: D cursor_execute_run run_insert_sales_ok conn_commit_fault
         del: run_statement.simps)
  have "insert_sales env (Some c) pool count w = (Inr None, after_insert_sales pool ss st w)"
    using insert_sales_ok[OF assms(2,3) op st f1 f2 ss(1,2)] .
  then show ?thesis
    using assms(1) c op f1 f2 st ss(2,3) by auto
qed

lemma get_random_product_ids_ok:
  assumes "conn_open w" "products_tbl (pending w) = Some pt" "faults env (ops w) = None"
  shows "get_random_product_ids env (Some c) limit w =
     (Inr (random_sample env limit pt w), after_select pt w)"
  using assms
  by (simp add: get_random_product_ids_def bind_io_def the_conn_def conn_cursor_def
      cursor_execute_run cursor_fetchall_def after_select_def random_sample_def Let_def)

lemma get_random_product_ids_InrD:
  assumes "get_random_product_ids env co limit w = (Inr ids, w')"
  shows "\<exists>c pt. co = Some c \<and> conn_open w \<and> faults env (ops w) = None \<and>
        products_tbl (pending w) = Some pt \<and>
        ids = random_sample env limit pt w \<and> w' = after_select pt w"
proof -
  note D = get_random_product_ids_def bind_io_def the_conn_def conn_cursor_def cursor_fetchall_def
  obtain c where c: "co = Some c"
    using assms(1) by (cases co) (simp_all add: D)
  have op: "conn_open w"
    using assms(1) c by (cases "conn_open w") (simp_all add: D)
  have f1: "faults env (ops w) = None"
    using assms(1) c op by (cases "faults env (ops w)") (simp_all add: D cursor_execute_fault)
  obtain pt where pt: "products_tbl (pending w) = Some pt"
    using assms(1) c op f1
    by (cases "products_tbl (pending w)") (simp_all add: D cursor_execute_run)
  show ?thesis
    using assms get_random_product_ids_ok[OF op pt f1, of c limit] c op f1 pt by auto
qed

lemma set_order_by_random: "set (order_by_random keys xs) \<subseteq> set xs"
  by (auto simp: order_by_random_def dest: set_zip_rightD)

lemma random_sample_subset: "set (random_sample env limit pt w) \<subseteq> row_id ` set (rows pt)"
  using set_order_by_random set_take_subset by (fastforce simp: random_sample_def)

lemma length_random_sample: "length (random_sample env limit pt w) \<le> limit"
  by (simp add: random_sample_def)



lemma random_randint_ok:
  assumes "a \<le> b"
  shows "\<exists>k. random_randint env a b w = (Inr k, w\<lparr>rng := rng w + 1\<rparr>) \<and> a \<le> k \<and> k \<le> b"
proof -
  have "int (entropy env (rng w) mod nat (b - a + 1)) < b - a + 1"
    using assms by (metis add_nonneg_pos diff_ge_0_iff_ge mod_less_divisor nat_eq_iff2 nat_less_iff
        zero_less_nat_eq zless_nat_conj zero_less_one less_le of_nat_0_less_iff of_nat_less_iff int_nat_eq)
  then show ?thesis
    using assms by (simp add: random_randint_def draw_def)
qed

lemma loop_inv_rng [simp]: "loop_inv l (w\<lparr>rng := r\<rparr>) = loop_inv l w"
  by (simp add: loop_inv_def)

lemma loop_inv_trace [simp]: "loop_inv l (w\<lparr>trace := tr\<rparr>) = loop_inv l w"
  by (simp add: loop_inv_def)

lemma ref_ok_mono: "ref_ok prs s \<Longrightarrow> set prs \<subseteq> set prs' \<Longrightarrow> ref_ok prs' s"
  by (auto simp: ref_ok_def split: option.splits)

lemma ref_ok_append: "ref_ok prs s \<Longrightarrow> ref_ok (prs @ prs2) s"
  by (auto simp: ref_ok_def split: option.splits)

lemma loop_inv_after_insert_products:
  assumes "loop_inv l w" "products_tbl (pending w) = Some pt"
  shows "loop_inv (l\<lparr>iteration := i, product_ids := product_ids l @ map (\<lambda>i. next_id pt + int i) [0..<length ps],
                     total_products := tp\<rparr>)
           (after_insert_products ps pt w)"
proof -
  have ids: "map (\<lambda>i. next_id pt + int i) [0..<length ps] = map row_id (batch_rows (next_id pt) (stamp w) ps)"
    by (simp add: batch_rows_ids)
  show ?thesis
    using assms unfolding loop_inv_def ids
    by (auto simp: after_insert_products_def product_rows_def sale_rows_def refs_ok_def
        dest: batch_rows_time intro: ref_ok_append)
qed


lemma ref_ok_new_sale:
  assumes "s \<in> set (batch_rows first t ss)"
    "\<forall>s \<in> set ss. case product_id s of None \<Rightarrow> pool = [] | Some p \<Rightarrow> p \<in> set pool"
    "set pool \<subseteq> row_id ` set prs" "\<forall>r \<in> set prs. row_time r \<le> t"
  shows "ref_ok prs s"
proof -
  have "row_data s \<in> set ss"
    using assms(1) by (auto simp: batch_rows_def dest: set_zip_rightD)
  moreover have "row_time s = t"
    using assms(1) by (rule batch_rows_time)
  ultimately show ?thesis
    using assms(2,3,4) by (fastforce simp: ref_ok_def split: option.splits)
qed

lemma loop_inv_after_insert_sales:
  assumes "loop_inv l w" "sales_tbl (pending w) = Some st"
    "\<forall>s \<in> set ss. case product_id s of None \<Rightarrow> product_ids l = [] | Some p \<Rightarrow> p \<in> set (product_ids l)"
  shows "loop_inv (l\<lparr>total_sales := ts\<rparr>) (after_insert_sales (product_ids l) ss st w)"
proof -
  have new: "\<And>s. s \<in> set (batch_rows (next_id st) (stamp w) ss) \<Longrightarrow> ref_ok (product_rows (pending w)) s"
    using assms(1,3) by (intro ref_ok_new_sale[where pool = "product_ids l"]) (auto simp: loop_inv_def)
  show ?thesis
    using assms(1,2) new unfolding loop_inv_def
    by (auto simp: after_insert_sales_def product_rows_def sale_rows_def refs_ok_def
        split: option.splits)
qed

lemma loop_inv_after_select:
  assumes "loop_inv l w" "products_tbl (pending w) = Some pt"
  shows "loop_inv (l\<lparr>product_ids := random_sample env limit pt w'\<rparr>) (after_select pt w)"
  using assms random_sample_subset[of env limit pt w'] unfolding loop_inv_def
  by (auto simp: after_select_def product_rows_def sale_rows_def refs_ok_def)

lemma stamp_le_after_op: "stamp w \<le> ops w \<Longrightarrow> stamp w \<le> stamp (w\<lparr>ops := Suc (ops w)\<rparr>)"
  by (auto simp: stamp_def split: option.splits)

lemma loop_inv_after_sleep:
  assumes "loop_inv l w"
  shows "loop_inv l (w\<lparr>ops := Suc (ops w)\<rparr>)"
  using assms stamp_le_after_op[of w] unfolding loop_inv_def
  by (auto simp: stamp_def split: option.splits)



lemma loop_insert_products_InrD:
  assumes "loop_insert_products env co (l, w) = (Inr u, (l', w'))" "loop_inv l w"
  shows "loop_inv l' w' \<and>
     (\<exists>k. 1 \<le> k \<and> k \<le> 2 \<and> n_products w' = n_products w + nat k \<and>
          total_products l' = total_products l + k) \<and>
     n_sales w' = n_sales w \<and> total_sales l' = total_sales l \<and>
     iteration l' = iteration l + 1"
proof -
  obtain k where k: "random_randint env 1 2 w = (Inr k, w\<lparr>rng := rng w + 1\<rparr>)" "1 \<le> k" "k \<le> 2"
    using random_randint_ok[of 1 2 env w] by auto
  from assms(1) k(1) obtain ids where
    ins: "insert_products env co k (w\<lparr>rng := rng w + 1\<rparr>) = (Inr ids, w')" and
    l': "l' = l\<lparr>iteration := iteration l + 1, product_ids := product_ids l @ ids,
               total_products := total_products l + k\<rparr>"
    by (auto simp: loop_insert_products_def Let_def split: prod.splits sum.splits)
  from insert_products_InrD[OF ins] k(2,3) obtain c ps pt where
    r: "length ps = nat k" "products_tbl (pending (w\<lparr>rng := rng w + 1\<rparr>)) = Some pt"
      "ids = map (\<lambda>i. next_id pt + int i) [0..<nat k]"
      "w' = after_insert_products ps pt (w\<lparr>rng := rng w + 1\<rparr>)"
    by auto
  have inv1: "loop_inv l (w\<lparr>rng := rng w + 1\<rparr>)"
    using assms(2) by simp
  have "loop_inv l' w'"
    unfolding l' r(4) r(3) r(1)[symmetric]
    by (rule loop_inv_after_insert_products[OF inv1 r(2)])
  moreover have "committed w = pending w"
    using assms(2) by (simp add: loop_inv_def)
  ultimately show ?thesis
    using r k(2,3) l'
    by (auto simp: n_products_def n_sales_def after_insert_products_def product_rows_def
        sale_rows_def)
qed

lemma loop_refresh_pool_InrD:
  assumes "loop_refresh_pool env co (l, w) = (Inr u, (l', w'))" "loop_inv l w"
  shows "loop_inv l' w' \<and> length (product_ids l') \<le> 100 \<and>
     n_products w' = n_products w \<and> n_sales w' = n_sales w \<and>
     total_products l' = total_products l \<and> total_sales l' = total_sales l \<and>
     iteration l' = iteration l"
proof (cases "length (product_ids l) > 100")
  case False
  then show ?thesis
    using assms by (auto simp: loop_refresh_pool_def)
next
  case True
  with assms(1) obtain ids where
    g: "get_random_product_ids env co 100 w = (Inr ids, w')" and l': "l' = l\<lparr>product_ids := ids\<rparr>"
    by (auto simp: loop_refresh_pool_def split: prod.splits sum.splits)
  from get_random_product_ids_InrD[OF g] obtain c pt where
    r: "products_tbl (pending w) = Some pt" "ids = random_sample env 100 pt w"
      "w' = after_select pt w"
    by auto
  have "loop_inv l' w'"
    unfolding l' r(2,3) by (rule loop_inv_after_select[OF assms(2) r(1)])
  then show ?thesis
    using r l' length_random_sample[of env 100 pt w]
    by (auto simp: n_products_def n_sales_def after_select_def)
qed

lemma loop_insert_sales_InrD:
  assumes "loop_insert_sales env co (l, w) = (Inr u, (l', w'))" "loop_inv l w"
  shows "loop_inv l' w' \<and>
     (\<exists>k. 1 \<le> k \<and> k \<le> 2 \<and> n_sales w' = n_sales w + nat k \<and>
          total_sales l' = total_sales l + k) \<and>
     n_products w' = n_products w \<and> total_products l' = total_products l \<and>
     iteration l' = iteration l \<and> product_ids l' = product_ids l"
proof -
  obtain k where k: "random_randint env 1 2 w = (Inr k, w\<lparr>rng := rng w + 1\<rparr>)" "1 \<le> k" "k \<le> 2"
    using random_randint_ok[of 1 2 env w] by auto
  from assms(1) k(1) obtain r where
    ins: "insert_sales env co (product_ids l) k (w\<lparr>rng := rng w + 1\<rparr>) = (Inr r, w')" and
    l': "l' = l\<lparr>total_sales := total_sales l + k\<rparr>"
    by (auto simp: loop_insert_sales_def Let_def split: prod.splits sum.splits)
  from insert_sales_InrD[OF ins] k(2,3) obtain c ss st where
    r: "length ss = nat k" "sales_tbl (pending (w\<lparr>rng := rng w + 1\<rparr>)) = Some st"
      "\<forall>s \<in> set ss. case product_id s of None \<Rightarrow> product_ids l = [] | Some p \<Rightarrow> p \<in> set (product_ids l)"
      "w' = after_insert_sales (product_ids l) ss st (w\<lparr>rng := rng w + 1\<rparr>)"
    by auto
  have inv1: "loop_inv l (w\<lparr>rng := rng w + 1\<rparr>)"
    using assms(2) by simp
  have "loop_inv l' w'"
    unfolding l' r(4)
    by (rule loop_inv_after_insert_sales[OF inv1 r(2) r(3)])
  moreover have "committed w = pending w"
    using assms(2) by (simp add: loop_inv_def)
  ultimately show ?thesis
    using r k(2,3) l'
    by (auto simp: n_products_def n_sales_def after_insert_sales_def product_rows_def
        sale_rows_def)
qed

lemma loop_report_and_sleep_InrD:
  assumes "loop_report_and_sleep env (l, w) = (Inr u, (l', w'))" "loop_inv l w"
  shows "loop_inv l' w' \<and> l' = l \<and> n_products w' = n_products w \<and> n_sales w' = n_sales w"
proof -
  define w1 where "w1 = (if iteration l mod 10 = 0
      then logger_info (Msg_progress (total_products l) (total_sales l) (iteration l)) w else w)"
  have w1: "loop_inv l w1" "committed w1 = committed w"
    using assms(2) by (auto simp: w1_def logger_info_def logger_log_def emit_def)
  from assms(1) have s: "time_sleep env 1 w1 = (Inr (), w')" and l': "l' = l"
    by (auto simp: loop_report_and_sleep_def w1_def[symmetric] Let_def split: prod.splits sum.splits)
  from s have w': "w' = (emit (Sleep 1) w1)\<lparr>ops := Suc (ops w1)\<rparr>"
    by (auto simp: time_sleep_def blocking_call_def emit_def split: option.splits)
  have "loop_inv l (emit (Sleep 1) w1)"
    using w1(1) by (simp add: emit_def)
  then have "loop_inv l w'"
    unfolding w' using loop_inv_after_sleep[of l "emit (Sleep 1) w1"] by (simp add: emit_def)
  then show ?thesis
    using l' w' w1(2) by (simp add: n_products_def n_sales_def emit_def)
qed

lemma loop_body_InrD:
  assumes "loop_body env co (l, w) = (Inr u, (l', w'))" "loop_inv l w"
  shows "loop_inv l' w' \<and> length (product_ids l') \<le> 100 \<and>
     (\<exists>k. 1 \<le> k \<and> k \<le> 2 \<and> n_products w' = n_products w + nat k \<and>
          total_products l' = total_products l + k) \<and>
     (\<exists>k. 1 \<le> k \<and> k \<le> 2 \<and> n_sales w' = n_sales w + nat k \<and>
          total_sales l' = total_sales l + k) \<and>
     iteration l' = iteration l + 1"
proof -
  from assms(1) obtain l1 w1 l2 w2 l3 w3 where
    1: "loop_insert_products env co (l, w) = (Inr (), (l1, w1))" and
    2: "loop_refresh_pool env co (l1, w1) = (Inr (), (l2, w2))" and
    3: "loop_insert_sales env co (l2, w2) = (Inr (), (l3, w3))" and
    4: "loop_report_and_sleep env (l3, w3) = (Inr u, (l', w'))"
    by (auto simp: loop_body_def bind_io_Inr_iff)
  note a = loop_insert_products_InrD[OF 1 assms(2)]
  note b = loop_refresh_pool_InrD[OF 2 a[THEN conjunct1]]
  note c = loop_insert_sales_InrD[OF 3 b[THEN conjunct1]]
  note d = loop_report_and_sleep_InrD[OF 4 c[THEN conjunct1]]
  show ?thesis
    using a b c d by auto
qed

lemma main_loop_InrD:
  "main_loop n env co (l, w) = (Inr u, (l', w')) \<Longrightarrow> loop_inv l w \<Longrightarrow>
   loop_inv l' w' \<and>
   n_products w + n \<le> n_products w' \<and> n_products w' \<le> n_products w + 2 * n \<and>
   n_sales w + n \<le> n_sales w' \<and> n_sales w' \<le> n_sales w + 2 * n \<and>
   total_products l' - total_products l = int (n_products w') - int (n_products w) \<and>
   total_sales l' - total_sales l = int (n_sales w') - int (n_sales w) \<and>
   iteration l' = iteration l + int n \<and>
   (0 < n \<longrightarrow> length (product_ids l') \<le> 100)"
proof (induction n arbitrary: l w)
  case 0
  then show ?case by simp
next
  case (Suc n)
  from Suc.prems(1) obtain l1 w1 where
    1: "loop_body env co (l, w) = (Inr (), (l1, w1))" and
    2: "main_loop n env co (l1, w1) = (Inr u, (l', w'))"
    by (auto split: prod.splits sum.splits)
  note a = loop_body_InrD[OF 1 Suc.prems(2)]
  note b = Suc.IH[OF 2 a[THEN conjunct1]]
  show ?case
  proof (cases n)
    case 0
    then have "l' = l1" "w' = w1" using 2 by simp_all
    then show ?thesis using a 0 by auto
  next
    case (Suc m)
    then show ?thesis using a b by auto
  qed
qed



lemma connect_attempts_InrD:
  "connect_attempts env as w = (Inr (Some c), w') \<Longrightarrow>
   conn_open w' \<and> pending w' = committed w' \<and> committed w' = committed w \<and>
   txn_start w' = None \<and> rng w' = rng w"
proof (induction as arbitrary: w)
  case Nil
  then show ?case by simp
next
  case (Cons a as)
  let ?w0 = "logger_info (Msg_attempt (a + 1) max_retries) w"
  show ?case
  proof (cases "connect_outcome env (connects ?w0)")
    case None
    then show ?thesis
      using Cons.prems by (auto simp: step_defs)
  next
    case (Some e)
    show ?thesis
    proof (cases "is_OperationalError e")
      case False
      then show ?thesis
        using Cons.prems Some by (cases e) (auto simp: step_defs)
    next
      case True
      then obtain s where e: "e = OperationalError s"
        by (cases e) auto
      show ?thesis
      proof (cases "a < max_retries - 1 \<and> faults env (ops w) = None")
        case False
        then show ?thesis
          using Cons.prems Some e by (auto simp: step_defs split: if_splits option.splits)
      next
        case True
        then obtain w3 where "connect_attempts env as w3 = (Inr (Some c), w')"
          "committed w3 = committed w" "rng w3 = rng w"
          using Cons.prems Some e by (auto simp: step_defs split: if_splits option.splits)
        then show ?thesis
          using Cons.IH[of w3] by simp
      qed
    qed
  qed
qed

lemma get_db_connection_InrD:
  "get_db_connection env w = (Inr (Some c), w') \<Longrightarrow>
   conn_open w' \<and> pending w' = committed w' \<and> committed w' = committed w \<and>
   txn_start w' = None \<and> rng w' = rng w"
  using connect_attempts_InrD[of env "[0..<max_retries]" "logger_info Msg_attempting_to_connect w" c w']
  by (simp add: get_db_connection_def logger_info_def logger_log_def emit_def)

lemma get_db_connection_first_try:
  assumes "connect_outcome env (connects w) = None"
  shows "get_db_connection env w =
    (Inr (Some (Conn (connects w))),
     w\<lparr>trace := trace w @ [Log INFO Msg_attempting_to_connect, Log INFO (Msg_attempt 1 max_retries),
          ConnectAttempt, Log INFO Msg_connected],
       connects := connects w + 1, conn_open := True, pending := committed w, txn_start := None\<rparr>)"
  using assms by (simp add: get_db_connection_def range_max_retries step_defs)

lemma run_create_products_eq:
  "run_statement env CreateProductsIfNotExists t w =
     (Inr None, w\<lparr>pending := (pending w)\<lparr>products_tbl :=
        Some (case products_tbl (pending w) of None \<Rightarrow> empty_table | Some tbl \<Rightarrow> tbl)\<rparr>\<rparr>)"
  by (cases "products_tbl (pending w)") simp_all

lemma run_create_sales_eq:
  "run_statement env CreateSalesIfNotExists t w =
     (Inr None, w\<lparr>pending := (pending w)\<lparr>sales_tbl :=
        Some (case sales_tbl (pending w) of None \<Rightarrow> empty_table | Some tbl \<Rightarrow> tbl)\<rparr>\<rparr>)"
  by (cases "sales_tbl (pending w)") simp_all

lemma create_tables_InrD:
  assumes "create_tables env co w = (Inr u, w')"
  shows "\<exists>c. co = Some c \<and> conn_open w \<and> conn_open w' \<and>
     pending w' = provisioned (pending w) \<and> committed w' = provisioned (pending w) \<and>
     txn_start w' = None \<and> rng w' = rng w \<and> ops w' = ops w + 5"
proof -
  note D = create_tables_def bind_io_def effect_io_def the_conn_def conn_cursor_def
    logger_info_def logger_log_def emit_def run_create_products_eq run_create_sales_eq
  obtain c where c: "co = Some c"
    using assms by (cases co) (simp_all add: D)
  have op: "conn_open w"
    using assms c by (cases "conn_open w") (simp_all add: D)
  have f1: "faults env (ops w) = None"
    using assms c op
    by (cases "faults env (ops w)") (simp_all add: D cursor_execute_fault)
  have f2: "faults env (Suc (ops w)) = None"
    using assms c op f1
    by (cases "faults env (Suc (ops w))")
       (simp_all add: D cursor_execute_fault cursor_execute_run del: run_statement.simps)
  have f3: "faults env (Suc (Suc (ops w))) = None"
    using assms c op f1 f2
    by (cases "faults env (Suc (Suc (ops w)))")
       (simp_all add: D cursor_execute_fault cursor_execute_run del: run_statement.simps)
  have f4: "faults env (Suc (Suc (Suc (ops w)))) = None"
    using assms c op f1 f2 f3
    by (cases "faults env (Suc (Suc (Suc (ops w))))")
       (simp_all add: D cursor_execute_fault cursor_execute_run del: run_statement.simps(1,2))
  have f5: "faults env (Suc (Suc (Suc (Suc (ops w))))) = None"
    using assms c op f1 f2 f3 f4
    by (cases "faults env (Suc (Suc (Suc (Suc (ops w)))))")
       (simp_all add: D cursor_execute_run conn_commit_fault del: run_statement.simps(1,2))
  have "uninterrupted env (ops w) 5"
    unfolding uninterrupted_def
  proof (intro allI impI)
    fix i :: nat assume "i < 5"
    then consider "i = 0" | "i = 1" | "i = 2" | "i = 3" | "i = 4" by linarith
    then show "faults env (ops w + i) = None"
      using f1 f2 f3 f4 f5 by cases (simp_all add: eval_nat_numeral)
  qed
  from create_tables_ok[OF op this, of c] show ?thesis
    using assms c op by auto
qed



lemma uninterrupted_sub:
  "uninterrupted env k n \<Longrightarrow> k \<le> k' \<Longrightarrow> k' + n' \<le> k + n \<Longrightarrow> uninterrupted env k' n'"
  unfolding uninterrupted_def
proof (intro allI impI)
  fix i assume a: "\<forall>i<n. faults env (k + i) = None" "k \<le> k'" "k' + n' \<le> k + n" "i < n'"
  then have "k' + i - k < n" by linarith
  with a(1) have "faults env (k + (k' + i - k)) = None" by blast
  then show "faults env (k' + i) = None" using a(2) by simp
qed

lemma uninterrupted_at: "uninterrupted env k n \<Longrightarrow> k \<le> j \<Longrightarrow> j < k + n \<Longrightarrow> faults env j = None"
  using uninterrupted_sub[of env k n j 1] by (simp add: uninterrupted_def)

lemma loop_inv_provisioned:
  assumes "conn_open w" "pending w = provisioned empty_database" "committed w = pending w"
    "txn_start w = None"
  shows "loop_inv no_locals w"
  using assms
  by (simp add: loop_inv_def no_locals_def provisioned_def product_rows_def sale_rows_def
      refs_ok_def ensure_table_def empty_database_def empty_table_def stamp_def)

lemma loop_inv_logger_info [simp]: "loop_inv l (logger_info m w) = loop_inv l w"
  by (simp add: logger_info_def logger_log_def emit_def)

lemma main_startup_InrD:
  assumes "main_startup env w = (Inr (co, l), w1)" "committed w = empty_database"
  shows "(\<exists>c. co = Some c) \<and> loop_inv l w1 \<and> n_products w1 = 20 \<and> n_sales w1 = 0 \<and>
     total_products l = 20 \<and> total_sales l = 0 \<and> iteration l = 0 \<and>
     product_ids l = map (\<lambda>i. 1 + int i) [0..<20]"
proof -
  from assms(1) obtain wa wb wc ids where
    g: "get_db_connection env (logger_info Msg_starting w) = (Inr co, wa)" and
    t: "create_tables env co wa = (Inr (), wb)" and
    i: "insert_products env co 20 (logger_info Msg_seeding wb) = (Inr ids, wc)" and
    w1: "w1 = logger_info Msg_press_ctrl_c (logger_info Msg_starting_generation
                (logger_info (Msg_seeded (length ids)) wc))" and
    l: "l = \<lparr>product_ids = ids, iteration = 0, total_products = int (length ids), total_sales = 0\<rparr>"
    by (auto simp: main_startup_def bind_io_Inr_iff return_io_def)
  from create_tables_InrD[OF t] obtain c where
    c: "co = Some c" and
    b: "conn_open wb" "pending wb = provisioned (pending wa)" "committed wb = provisioned (pending wa)"
       "txn_start wb = None"
    by auto
  from get_db_connection_InrD[of env "logger_info Msg_starting w" c wa] g c
  have a: "pending wa = empty_database"
    using assms(2) by (simp add: logger_info_def logger_log_def emit_def)
  let ?wb = "logger_info Msg_seeding wb"
  have inv0: "loop_inv no_locals ?wb"
    using loop_inv_provisioned[of wb] b a by simp
  from insert_products_InrD[OF i] obtain ps pt where
    r: "length ps = 20" "products_tbl (pending ?wb) = Some pt"
      "ids = map (\<lambda>i. next_id pt + int i) [0..<20]"
      "wc = after_insert_products ps pt ?wb"
    by auto
  have pt: "pt = empty_table\<lparr>replica_identity_full := True\<rparr>"
    using r(2) b(2) a
    by (simp add: logger_info_def logger_log_def emit_def provisioned_def ensure_table_def
        empty_database_def)
  have "loop_inv (no_locals\<lparr>iteration := 0,
      product_ids := product_ids no_locals @ map (\<lambda>i. next_id pt + int i) [0..<length ps],
      total_products := 20\<rparr>) (after_insert_products ps pt ?wb)"
    by (rule loop_inv_after_insert_products[OF inv0 r(2)])
  moreover have "no_locals\<lparr>iteration := 0,
      product_ids := product_ids no_locals @ map (\<lambda>i. next_id pt + int i) [0..<length ps],
      total_products := 20\<rparr> = l"
    using l r(1,3) by (simp add: no_locals_def)
  ultimately have "loop_inv l wc"
    using r(4) by simp
  then have "loop_inv l w1"
    by (simp add: w1)
  moreover have "n_products w1 = 20" "n_sales w1 = 0"
    using r(1) b(2) a
    by (simp_all add: w1 r(4) pt n_products_def n_sales_def after_insert_products_def
        logger_info_def logger_log_def emit_def product_rows_def sale_rows_def provisioned_def
        ensure_table_def empty_database_def empty_table_def)
  ultimately show ?thesis
    using c l r(3) by (simp add: pt empty_table_def)
qed



subsection \<open>Runs on which nothing fails\<close>

lemma main_startup_conn:
  assumes "main_startup env w = (Inr (co, l), w1)"
  shows "\<exists>c. co = Some c"
proof -
  from assms obtain wa wb where "create_tables env co wa = (Inr (), wb)"
    by (auto simp: main_startup_def bind_io_Inr_iff return_io_def)
  from create_tables_InrD[OF this] show ?thesis by auto
qed

lemma main_startup_ok:
  assumes "connect_outcome env (connects w) = None" "uninterrupted env (ops w) 7"
  shows "\<exists>c l w1. main_startup env w = (Inr (Some c, l), w1) \<and> ops w1 = ops w + 7"
proof -
  let ?ws = "logger_info Msg_starting w"
  have cs: "connect_outcome env (connects ?ws) = None"
    using assms(1) by (simp add: logger_info_def logger_log_def emit_def)
  obtain wa where g: "get_db_connection env ?ws = (Inr (Some (Conn (connects ?ws))), wa)"
    and a: "conn_open wa" "ops wa = ops w"
    using get_db_connection_first_try[OF cs]
    by (simp add: logger_info_def logger_log_def emit_def)
  let ?c = "Conn (connects ?ws)"
  have "uninterrupted env (ops wa) 5"
    using uninterrupted_sub[OF assms(2), of "ops wa" 5] a(2) by simp
  from create_tables_ok_ex[OF a(1) this, of ?c] obtain wb where
    t: "create_tables env (Some ?c) wa = (Inr (), wb)" and
    b: "conn_open wb" "ops wb = ops wa + 5" "pending wb = provisioned (pending wa)"
    by auto
  let ?wb = "logger_info Msg_seeding wb"
  have wb: "conn_open ?wb" "ops ?wb = ops w + 5"
    "products_tbl (pending ?wb) = Some (ensure_table (products_tbl (pending wa)))"
    using a(2) b by (simp_all add: logger_info_def logger_log_def emit_def provisioned_def)
  obtain ps where ps: "generate_products env (nat 20) ?wb = (Inr ps, ?wb\<lparr>rng := rng ?wb + 4 * nat 20\<rparr>)"
    "length ps = nat 20"
    using generate_products_ok by blast
  have f: "faults env (ops ?wb) = None" "faults env (Suc (ops ?wb)) = None"
    using uninterrupted_at[OF assms(2), of "ops w + 5"] uninterrupted_at[OF assms(2), of "ops w + 6"] wb(2)
    by (simp_all add: add.commute)
  have i: "insert_products env (Some ?c) 20 ?wb =
     (Inr (map (\<lambda>i. next_id (ensure_table (products_tbl (pending wa))) + int i) [0..<nat 20]),
      after_insert_products ps (ensure_table (products_tbl (pending wa))) ?wb)"
    by (rule insert_products_ok[OF _ _ wb(1) wb(3) f ps]) simp_all
  have "ops (after_insert_products ps (ensure_table (products_tbl (pending wa))) ?wb) = ops w + 7"
    using wb(2) by (simp add: after_insert_products_def)
  then show ?thesis
    by (simp add: main_startup_def bind_io_def effect_io_def return_io_def g t i
        logger_info_def[symmetric])
       (simp add: logger_info_def logger_log_def emit_def)
qed

lemma loop_inv_D:
  assumes "loop_inv l w"
  shows "conn_open w" "\<exists>pt. products_tbl (pending w) = Some pt" "\<exists>st. sales_tbl (pending w) = Some st"
  using assms by (auto simp: loop_inv_def)

lemma loop_insert_products_ok:
  assumes "loop_inv l w" "faults env (ops w) = None" "faults env (Suc (ops w)) = None"
  shows "\<exists>l' w'. loop_insert_products env (Some c) (l, w) = (Inr (), (l', w')) \<and> ops w' = ops w + 2"
proof -
  obtain k where k: "random_randint env 1 2 w = (Inr k, w\<lparr>rng := rng w + 1\<rparr>)" "1 \<le> k" "k \<le> 2"
    using random_randint_ok[of 1 2 env w] by auto
  let ?w1 = "w\<lparr>rng := rng w + 1\<rparr>"
  obtain pt where pt: "products_tbl (pending ?w1) = Some pt"
    using loop_inv_D(2)[OF assms(1)] by auto
  obtain ps where ps: "generate_products env (nat k) ?w1 = (Inr ps, ?w1\<lparr>rng := rng ?w1 + 4 * nat k\<rparr>)"
    "length ps = nat k"
    using generate_products_ok by blast
  have "insert_products env (Some c) k ?w1 =
     (Inr (map (\<lambda>i. next_id pt + int i) [0..<nat k]), after_insert_products ps pt ?w1)"
    using k(2,3) loop_inv_D(1)[OF assms(1)] assms(2,3)
    by (intro insert_products_ok[OF _ _ _ pt _ _ ps]) simp_all
  then show ?thesis
    by (simp add: loop_insert_products_def k(1) after_insert_products_def)
qed

lemma loop_refresh_pool_ok:
  assumes "loop_inv l w" "faults env (ops w) = None"
  shows "\<exists>l' w'. loop_refresh_pool env (Some c) (l, w) = (Inr (), (l', w')) \<and>
     ops w \<le> ops w' \<and> ops w' \<le> ops w + 1"
proof (cases "length (product_ids l) > 100")
  case False
  then show ?thesis by (simp add: loop_refresh_pool_def)
next
  case True
  obtain pt where pt: "products_tbl (pending w) = Some pt"
    using loop_inv_D(2)[OF assms(1)] by auto
  from get_random_product_ids_ok[OF loop_inv_D(1)[OF assms(1)] pt assms(2), of c 100] True
  show ?thesis
    by (simp add: loop_refresh_pool_def after_select_def)
qed

lemma loop_insert_sales_ok:
  assumes "loop_inv l w" "faults env (ops w) = None" "faults env (Suc (ops w)) = None"
  shows "\<exists>l' w'. loop_insert_sales env (Some c) (l, w) = (Inr (), (l', w')) \<and> ops w' = ops w + 2"
proof -
  obtain k where k: "random_randint env 1 2 w = (Inr k, w\<lparr>rng := rng w + 1\<rparr>)" "1 \<le> k" "k \<le> 2"
    using random_randint_ok[of 1 2 env w] by auto
  let ?w1 = "w\<lparr>rng := rng w + 1\<rparr>"
  obtain st where st: "sales_tbl (pending ?w1) = Some st"
    using loop_inv_D(3)[OF assms(1)] by auto
  obtain ss where ss: "generate_sales env (product_ids l) (nat k) ?w1 =
      (Inr ss, ?w1\<lparr>rng := rng ?w1 + draws_per_sale (product_ids l) * nat k\<rparr>)"
    "length ss = nat k"
    using generate_sales_ok by blast
  have "insert_sales env (Some c) (product_ids l) k ?w1 =
     (Inr None, after_insert_sales (product_ids l) ss st ?w1)"
    using k(2,3) loop_inv_D(1)[OF assms(1)] assms(2,3)
    by (intro insert_sales_ok[OF _ _ _ st _ _ ss]) simp_all
  then show ?thesis
    by (simp add: loop_insert_sales_def k(1) after_insert_sales_def)
qed

lemma loop_report_and_sleep_ok:
  assumes "faults env (ops w) = None"
  shows "\<exists>l' w'. loop_report_and_sleep env (l, w) = (Inr (), (l', w')) \<and> ops w' = ops w + 1"
  using assms
  by (simp add: loop_report_and_sleep_def time_sleep_def blocking_call_def emit_def
      logger_info_def logger_log_def Let_def)

lemma loop_body_ok:
  assumes "loop_inv l w" "uninterrupted env (ops w) 6"
  shows "\<exists>l' w'. loop_body env (Some c) (l, w) = (Inr (), (l', w')) \<and>
     ops w \<le> ops w' \<and> ops w' \<le> ops w + 6"
proof -
  note f = uninterrupted_at[OF assms(2)]
  obtain l1 w1 where 1: "loop_insert_products env (Some c) (l, w) = (Inr (), (l1, w1))"
    and o1: "ops w1 = ops w + 2"
    using loop_insert_products_ok[OF assms(1) f f, of c] by auto
  have i1: "loop_inv l1 w1"
    using loop_insert_products_InrD[OF 1 assms(1)] by simp
  obtain l2 w2 where 2: "loop_refresh_pool env (Some c) (l1, w1) = (Inr (), (l2, w2))"
    and o2: "ops w1 \<le> ops w2" "ops w2 \<le> ops w1 + 1"
    using loop_refresh_pool_ok[OF i1 f, of c] o1 by auto
  have i2: "loop_inv l2 w2"
    using loop_refresh_pool_InrD[OF 2 i1] by simp
  obtain l3 w3 where 3: "loop_insert_sales env (Some c) (l2, w2) = (Inr (), (l3, w3))"
    and o3: "ops w3 = ops w2 + 2"
    using loop_insert_sales_ok[OF i2 f f, of c] o1 o2 by auto
  obtain l4 w4 where 4: "loop_report_and_sleep env (l3, w3) = (Inr (), (l4, w4))"
    and o4: "ops w4 = ops w3 + 1"
    using loop_report_and_sleep_ok[OF f, of w3 l3] o1 o2 o3 by auto
  show ?thesis
    using o1 o2 o3 o4 by (simp add: loop_body_def bind_io_def 1 2 3 4)
qed

lemma main_loop_ok:
  "loop_inv l w \<Longrightarrow> uninterrupted env (ops w) (6 * n) \<Longrightarrow>
   \<exists>l' w'. main_loop n env (Some c) (l, w) = (Inr (), (l', w'))"
proof (induction n arbitrary: l w)
  case 0
  then show ?case by simp
next
  case (Suc n)
  have "uninterrupted env (ops w) 6"
    using uninterrupted_sub[OF Suc.prems(2), of "ops w" 6] by simp
  from loop_body_ok[OF Suc.prems(1) this, of c] obtain l1 w1 where
    1: "loop_body env (Some c) (l, w) = (Inr (), (l1, w1))" and
    o: "ops w \<le> ops w1" "ops w1 \<le> ops w + 6"
    by auto
  have i1: "loop_inv l1 w1"
    using loop_body_InrD[OF 1 Suc.prems(1)] by simp
  have "uninterrupted env (ops w1) (6 * n)"
    using uninterrupted_sub[OF Suc.prems(2), of "ops w1" "6 * n"] o by simp
  from Suc.IH[OF i1 this] show ?case
    by (simp add: 1)
qed

lemma main_ok:
  assumes "committed w = empty_database" "connect_outcome env (connects w) = None"
    "uninterrupted env (ops w) (7 + 6 * n)"
  shows "\<exists>w'. main n env w = (StillRunning, w')"
proof -
  have "uninterrupted env (ops w) 7"
    using uninterrupted_sub[OF assms(3), of "ops w" 7] by simp
  from main_startup_ok[OF assms(2) this] obtain c l w1 where
    s: "main_startup env w = (Inr (Some c, l), w1)" and o: "ops w1 = ops w + 7"
    by auto
  have i: "loop_inv l w1"
    using main_startup_InrD[OF s assms(1)] by simp
  have "uninterrupted env (ops w1) (6 * n)"
    using uninterrupted_sub[OF assms(3), of "ops w1" "6 * n"] o by simp
  from main_loop_ok[OF i this, of c] obtain l' w' where
    "main_loop n env (Some c) (l, w1) = (Inr (), (l', w'))"
    by auto
  then show ?thesis
    by (simp add: main_def s)
qed



subsection \<open>Runs that are cut short\<close>

lemma insert_products_fault:
  assumes "1 \<le> count" "count \<le> 100" "conn_open w" "faults env (ops w) = Some e"
  shows "insert_products env (Some c) count w =
     (Inl e, w\<lparr>rng := rng w + 4 * nat count, ops := ops w + 1\<rparr>)"
proof -
  obtain ps where ps: "generate_products env (nat count) w = (Inr ps, w\<lparr>rng := rng w + 4 * nat count\<rparr>)"
    "length ps = nat count"
    using generate_products_ok by blast
  have ne: "ps \<noteq> []" "length ps \<le> 100"
    using ps(2) assms by auto
  show ?thesis
    using assms(3,4)
    by (simp add: insert_products_def bind_io_def ps(1) the_conn_def conn_cursor_def
        execute_values_one_page[OF ne] cursor_execute_fault)
qed

lemma loop_body_fault:
  assumes "conn_open w" "faults env (ops w) = Some e"
  shows "\<exists>w'. loop_body env (Some c) (l, w) = (Inl e, (l\<lparr>iteration := iteration l + 1\<rparr>, w')) \<and>
     ops w' = ops w + 1"
proof -
  obtain k where k: "random_randint env 1 2 w = (Inr k, w\<lparr>rng := rng w + 1\<rparr>)" "1 \<le> k" "k \<le> 2"
    using random_randint_ok[of 1 2 env w] by auto
  have "insert_products env (Some c) k (w\<lparr>rng := rng w + 1\<rparr>) =
      (Inl e, w\<lparr>rng := rng w + 1\<rparr>\<lparr>rng := rng (w\<lparr>rng := rng w + 1\<rparr>) + 4 * nat k,
                ops := ops (w\<lparr>rng := rng w + 1\<rparr>) + 1\<rparr>)"
    using k(2,3) assms by (intro insert_products_fault) simp_all
  then show ?thesis
    by (simp add: loop_body_def bind_io_def loop_insert_products_def k(1))
qed

lemma main_loop_more_fuel:
  "main_loop n env co s = (Inl e, s') \<Longrightarrow> main_loop (n + m) env co s = (Inl e, s')"
proof (induction n arbitrary: s)
  case 0
  then show ?case by simp
next
  case (Suc n)
  then show ?case
    by (auto split: prod.splits sum.splits)
qed

lemma main_finally_eq:
  "main_finally (Some c) l w =
     (Inr (), logger_info (Msg_final_stats (total_products l) (total_sales l))
                (logger_info Msg_connection_closed (conn_close c w)))"
  by (simp add: main_finally_def bind_io_def the_conn_def effect_io_def)

lemma main_StillRunningD:
  assumes "main n env w = (StillRunning, w')"
  shows "\<exists>co l0 w0 l'. main_startup env w = (Inr (co, l0), w0) \<and>
     main_loop n env co (l0, w0) = (Inr (), (l', w'))"
  using assms
  by (auto simp: main_def split: prod.splits sum.splits option.splits if_splits)

text \<open>
  Claim C3. Against an empty store, when \<open>main\<close> is still running after \<open>n\<close>
  completed iterations, the store holds between \<open>20 + n\<close> and \<open>20 + 2n\<close> catalog items
  and between \<open>n\<close> and \<open>2n\<close> transactions (so exactly 20 and 0 right after seeding,
  \<open>n = 0\<close>); the counters \<open>total_products\<close> and \<open>total_sales\<close> equal these numbers; and
  the reference of every transaction, when present, is the identifier of a catalog
  item whose creation time is not later than the transaction's.
\<close>

theorem end_to_end_counts:
  assumes "committed w = empty_database"
  shows "(main n env w = (StillRunning, w') \<longrightarrow>
            20 + n \<le> n_products w' \<and> n_products w' \<le> 20 + 2 * n \<and>
            n \<le> n_sales w' \<and> n_sales w' \<le> 2 * n \<and>
            refs_ok (committed w')) \<and>
         (main 0 env w = (StillRunning, w') \<longrightarrow> n_products w' = 20 \<and> n_sales w' = 0) \<and>
         (main_startup env w = (Inr (co, l0), w0) \<and>
          main_loop n env co (l0, w0) = (Inr u, (l', w')) \<longrightarrow>
            total_products l' = int (n_products w') \<and> total_sales l' = int (n_sales w') \<and>
            iteration l' = int n)"
proof -
  have loop: "loop_inv l' w' \<and> 20 + n \<le> n_products w' \<and> n_products w' \<le> 20 + 2 * n \<and>
      n \<le> n_sales w' \<and> n_sales w' \<le> 2 * n \<and>
      total_products l' = int (n_products w') \<and> total_sales l' = int (n_sales w') \<and>
      iteration l' = int n"
    if s: "main_startup env w = (Inr (co, l0), w0)"
      and m: "main_loop n env co (l0, w0) = (Inr u, (l', w'))"
    for n co l0 w0 u l' w'
  proof -
    note a = main_startup_InrD[OF s assms]
    note b = main_loop_InrD[OF m a[THEN conjunct2, THEN conjunct1]]
    show ?thesis using a b by auto
  qed
  have run: "20 + n \<le> n_products w' \<and> n_products w' \<le> 20 + 2 * n \<and>
      n \<le> n_sales w' \<and> n_sales w' \<le> 2 * n \<and> refs_ok (committed w')"
    if "main n env w = (StillRunning, w')" for n w'
  proof -
    from main_StillRunningD[OF that] obtain co l0 w0 l' where
      "main_startup env w = (Inr (co, l0), w0)" "main_loop n env co (l0, w0) = (Inr (), (l', w'))"
      by auto
    from loop[OF this] show ?thesis
      by (auto simp: loop_inv_def)
  qed
  show ?thesis
    using run[of n w'] run[of 0 w'] loop[of co l0 w0 n u l' w'] by auto
qed

theorem end_to_end_counts_witness:
  "\<exists>w' co l0 w0 l'. main 3 quiet_env (initial_world empty_database) = (StillRunning, w') \<and>
     23 \<le> n_products w' \<and> n_products w' \<le> 26 \<and> 3 \<le> n_sales w' \<and> n_sales w' \<le> 6 \<and>
     refs_ok (committed w') \<and>
     main_startup quiet_env (initial_world empty_database) = (Inr (co, l0), w0) \<and>
     main_loop 3 quiet_env co (l0, w0) = (Inr (), (l', w')) \<and>
     total_products l' = int (n_products w') \<and> total_sales l' = int (n_sales w') \<and>
     iteration l' = 3"
proof -
  have c: "committed (initial_world empty_database) = empty_database"
    by (simp add: initial_world_def)
  have "\<exists>w'. main 3 quiet_env (initial_world empty_database) = (StillRunning, w')"
    by (rule main_ok) (simp_all add: initial_world_def quiet_env_def uninterrupted_def)
  then obtain w' where w': "main 3 quiet_env (initial_world empty_database) = (StillRunning, w')"
    by blast
  from main_StillRunningD[OF w'] obtain co l0 w0 l' where
    r: "main_startup quiet_env (initial_world empty_database) = (Inr (co, l0), w0)"
      "main_loop 3 quiet_env co (l0, w0) = (Inr (), (l', w'))"
    by auto
  from end_to_end_counts [OF c, of 3 quiet_env w' co l0 w0 "()" l'] w' r show ?thesis
    by auto
qed



lemma refresh_pool_bound:
  assumes "loop_refresh_pool env co (l, w) = (Inr u, (l', w'))"
  shows "length (product_ids l') \<le> 100"
proof (cases "length (product_ids l) > 100")
  case False
  then show ?thesis
    using assms by (auto simp: loop_refresh_pool_def)
next
  case True
  with assms obtain ids where
    g: "get_random_product_ids env co 100 w = (Inr ids, w')" and l': "l' = l\<lparr>product_ids := ids\<rparr>"
    by (auto simp: loop_refresh_pool_def split: prod.splits sum.splits)
  from get_random_product_ids_InrD[OF g] obtain pt where "ids = random_sample env 100 pt w"
    by auto
  then show ?thesis
    using l' length_random_sample[of env 100 pt w] by simp
qed

lemma loop_insert_sales_pool:
  "loop_insert_sales env co (l, w) = (Inr u, (l', w')) \<Longrightarrow> product_ids l' = product_ids l"
  by (auto simp: loop_insert_sales_def split: prod.splits sum.splits)

lemma loop_report_and_sleep_pool:
  "loop_report_and_sleep env (l, w) = (Inr u, (l', w')) \<Longrightarrow> product_ids l' = product_ids l"
  by (auto simp: loop_report_and_sleep_def Let_def split: prod.splits sum.splits)

lemma loop_insert_products_pool:
  assumes "loop_insert_products env co (l, w) = (Inr u, (l', w'))"
  shows "length (product_ids l) < length (product_ids l')"
proof -
  obtain k where k: "random_randint env 1 2 w = (Inr k, w\<lparr>rng := rng w + 1\<rparr>)" "1 \<le> k" "k \<le> 2"
    using random_randint_ok[of 1 2 env w] by auto
  from assms k(1) obtain ids where
    ins: "insert_products env co k (w\<lparr>rng := rng w + 1\<rparr>) = (Inr ids, w')" and
    l': "product_ids l' = product_ids l @ ids"
    by (auto simp: loop_insert_products_def Let_def split: prod.splits sum.splits)
  from insert_products_InrD[OF ins] k(2,3) have "length ids = nat k"
    by auto
  then show ?thesis
    using l' k(2) by simp
qed

lemma loop_body_pool_bound:
  assumes "loop_body env co (l, w) = (Inr u, (l', w'))"
  shows "length (product_ids l') \<le> 100"
proof -
  from assms obtain l1 w1 l2 w2 l3 w3 where
    2: "loop_refresh_pool env co (l1, w1) = (Inr (), (l2, w2))" and
    3: "loop_insert_sales env co (l2, w2) = (Inr (), (l3, w3))" and
    4: "loop_report_and_sleep env (l3, w3) = (Inr u, (l', w'))"
    by (auto simp: loop_body_def bind_io_Inr_iff)
  show ?thesis
    using refresh_pool_bound[OF 2] loop_insert_sales_pool[OF 3] loop_report_and_sleep_pool[OF 4]
    by simp
qed

lemma main_loop_Suc_last:
  "main_loop (Suc n) env co s = (Inr u, s') \<Longrightarrow>
   \<exists>s1. main_loop n env co s = (Inr (), s1) \<and> loop_body env co s1 = (Inr (), s')"
proof (induction n arbitrary: s)
  case 0
  then show ?case by (auto split: prod.splits sum.splits)
next
  case (Suc n)
  from Suc.prems obtain s0 where
    1: "loop_body env co s = (Inr (), s0)" and 2: "main_loop (Suc n) env co s0 = (Inr u, s')"
    by (auto split: prod.splits sum.splits)
  from Suc.IH[OF 2] obtain s1 where
    "main_loop n env co s0 = (Inr (), s1)" "loop_body env co s1 = (Inr (), s')"
    by auto
  then show ?case
    using 1 by auto
qed

text \<open>
  Claim C4. Whatever number \<open>n\<close> of iterations has completed, when the next iteration
  has inserted its products and done its refresh check, the pool \<open>product_ids\<close> holds
  at most 100 identifiers; so it does at the end of every completed iteration.
\<close>

theorem pool_bound_after_refresh:
  "(main_loop n env co s = (Inr u, s1) \<and>
    loop_insert_products env co s1 = (Inr u1, s2) \<and>
    loop_refresh_pool env co s2 = (Inr u2, (l', w')) \<longrightarrow> length (product_ids l') \<le> 100) \<and>
   (main_loop (Suc n) env co s = (Inr u, (l', w')) \<longrightarrow> length (product_ids l') \<le> 100)"
proof (intro conjI impI)
  assume "main_loop n env co s = (Inr u, s1) \<and>
    loop_insert_products env co s1 = (Inr u1, s2) \<and>
    loop_refresh_pool env co s2 = (Inr u2, (l', w'))"
  then have "loop_refresh_pool env co (fst s2, snd s2) = (Inr u2, (l', w'))"
    by simp
  then show "length (product_ids l') \<le> 100"
    by (rule refresh_pool_bound)
next
  assume "main_loop (Suc n) env co s = (Inr u, (l', w'))"
  from main_loop_Suc_last[OF this] obtain s1 where "loop_body env co s1 = (Inr (), (l', w'))"
    by auto
  then have "loop_body env co (fst s1, snd s1) = (Inr (), (l', w'))"
    by simp
  then show "length (product_ids l') \<le> 100"
    by (rule loop_body_pool_bound)
qed



lemma quiet_env_uninterrupted [simp]: "uninterrupted quiet_env k n"
  by (simp add: uninterrupted_def quiet_env_def)

lemma quiet_env_faults [simp]: "faults quiet_env k = None"
  by (simp add: quiet_env_def)

theorem pool_bound_after_refresh_witness:
  "\<exists>c l w1 l2 w2 l' w' l3 w3.
     main_startup quiet_env (initial_world empty_database) = (Inr (Some c, l), w1) \<and>
     main_loop 0 quiet_env (Some c) (l\<lparr>product_ids := replicate 100 1\<rparr>, w1) =
       (Inr (), (l\<lparr>product_ids := replicate 100 1\<rparr>, w1)) \<and>
     loop_insert_products quiet_env (Some c) (l\<lparr>product_ids := replicate 100 1\<rparr>, w1) =
       (Inr (), (l2, w2)) \<and>
     100 < length (product_ids l2) \<and>
     loop_refresh_pool quiet_env (Some c) (l2, w2) = (Inr (), (l', w')) \<and>
     length (product_ids l') \<le> 100 \<and>
     main_loop (Suc 2) quiet_env (Some c) (l, w1) = (Inr (), (l3, w3)) \<and>
     length (product_ids l3) \<le> 100"
proof -
  let ?w = "initial_world empty_database"
  have c0: "committed ?w = empty_database" "connect_outcome quiet_env (connects ?w) = None"
    by (simp_all add: initial_world_def quiet_env_def)
  from main_startup_ok[OF c0(2) quiet_env_uninterrupted] obtain c l w1 where
    s: "main_startup quiet_env ?w = (Inr (Some c, l), w1)"
    by auto
  note a = main_startup_InrD[OF s c0(1)]
  have inv: "loop_inv l w1" and ids: "product_ids l = map (\<lambda>i. 1 + int i) [0..<20]"
    using a by simp_all
  let ?l = "l\<lparr>product_ids := replicate 100 1\<rparr>"
  have "(1::int) \<in> set (product_ids l)"
    unfolding ids by (simp add: image_iff)
  then have "set (replicate 100 (1::int)) \<subseteq> set (product_ids l)"
    by auto
  then have inv': "loop_inv ?l w1"
    using inv unfolding loop_inv_def by auto
  obtain l2 w2 where 1: "loop_insert_products quiet_env (Some c) (?l, w1) = (Inr (), (l2, w2))"
    using loop_insert_products_ok[OF inv', of quiet_env c] by auto
  have big: "100 < length (product_ids l2)"
    using loop_insert_products_pool[OF 1] by simp
  have inv2: "loop_inv l2 w2"
    using loop_insert_products_InrD[OF 1 inv'] by simp
  obtain l' w' where 2: "loop_refresh_pool quiet_env (Some c) (l2, w2) = (Inr (), (l', w'))"
    using loop_refresh_pool_ok[OF inv2, of quiet_env c] by auto
  obtain l3 w3 where 3: "main_loop (Suc 2) quiet_env (Some c) (l, w1) = (Inr (), (l3, w3))"
    using main_loop_ok[OF inv quiet_env_uninterrupted, of "Suc 2" c] by auto
  have 0: "main_loop 0 quiet_env (Some c) (?l, w1) = (Inr (), (?l, w1))"
    by simp
  from pool_bound_after_refresh [of 0 quiet_env "Some c" "(?l, w1)" "()" "(?l, w1)" "()" "(l2, w2)" "()" l' w']
    0 1 2
  have b1: "length (product_ids l') \<le> 100"
    by blast
  from pool_bound_after_refresh [of 2 quiet_env "Some c" "(l, w1)" "()" _ _ _ _ l3 w3] 3
  have b2: "length (product_ids l3) \<le> 100"
    by blast
  show ?thesis
    using s 0 1 big 2 b1 3 b2 by blast
qed

text \<open>
  Claim C8. When the loop is left by a \<open>KeyboardInterrupt\<close>, \<open>main\<close> returns: the
  process exits with status 0, the session is closed, and after the interrupt
  exactly three lines are logged, the last one carrying the totals
  \<open>total_products\<close> and \<open>total_sales\<close> as they stood at the interrupt. No driver call
  follows the interrupt.
\<close>

theorem interrupt_exits_cleanly:
  assumes "main_startup env w = (Inr (co, l), w1)"
    "main_loop n env co (l, w1) = (Inl KeyboardInterrupt, (l', w2))"
  shows "\<exists>w'. main n env w = (Returned, w') \<and>
     exit_status (fst (main n env w)) = Some 0 \<and> \<not> conn_open w' \<and>
     new_events w2 w' = [Log INFO Msg_stopping, Log INFO Msg_connection_closed,
        Log INFO (Msg_final_stats (total_products l') (total_sales l'))] \<and>
     ops w' = ops w2 \<and> committed w' = committed w2"
proof -
  obtain c where c: "co = Some c"
    using main_startup_conn[OF assms(1)] by auto
  note a = assms[unfolded c]
  show ?thesis
    by (simp add: main_def a main_finally_eq new_events_def conn_close_def
        logger_info_def logger_log_def emit_def)
qed

text \<open>
  Claim C9. When an iteration of the loop raises any exception other than
  \<open>KeyboardInterrupt\<close>, nothing is retried: the error is logged, the session is
  closed, the totals are reported, and the same exception leaves \<open>main\<close>, so the
  process exits with status 1. No driver call and no connection attempt follows the
  failure, and running longer changes nothing.
\<close>

theorem loop_error_is_fatal:
  assumes "main_startup env w = (Inr (co, l), w1)"
    "main_loop n env co (l, w1) = (Inl e, (l', w2))" "is_Exception e"
  shows "\<exists>w'. main n env w = (Uncaught e, w') \<and>
     exit_status (fst (main n env w)) = Some 1 \<and> \<not> conn_open w' \<and>
     new_events w2 w' = [Log ERROR (Msg_error_occurred (str_exn e)), Log INFO Msg_connection_closed,
        Log INFO (Msg_final_stats (total_products l') (total_sales l'))] \<and>
     ops w' = ops w2 \<and> connects w' = connects w2 \<and> committed w' = committed w2 \<and>
     (\<forall>m. main (n + m) env w = main n env w)"
proof -
  obtain c where c: "co = Some c"
    using main_startup_conn[OF assms(1)] by auto
  have ne: "e \<noteq> KeyboardInterrupt"
    using assms(3) by auto
  have st: "exit_status (Uncaught e) = Some 1"
    using assms(3) by (cases e) simp_all
  note a = assms(1,2)[unfolded c]
  have more: "main (n + m) env w = main n env w" for m
    using main_loop_more_fuel[OF a(2), of m] by (simp add: main_def a)
  have "main n env w = (Uncaught e,
      logger_info (Msg_final_stats (total_products l') (total_sales l'))
        (logger_info Msg_connection_closed
          (conn_close c (logger_exception (Msg_error_occurred (str_exn e)) w2))))"
    using assms(3) ne by (simp add: main_def a main_finally_eq)
  then show ?thesis
    using more st
    by (simp add: new_events_def conn_close_def logger_info_def logger_exception_def
        logger_log_def emit_def)
qed

lemma faulty_run:
  "\<exists>c l w1 l' w2.
     main_startup (faulty_env 7 e) (initial_world empty_database) = (Inr (Some c, l), w1) \<and>
     main_loop 1 (faulty_env 7 e) (Some c) (l, w1) = (Inl e, (l', w2)) \<and>
     total_products l' = 20 \<and> total_sales l' = 0 \<and> ops w2 = 8"
proof -
  let ?w = "initial_world empty_database" and ?env = "faulty_env 7 e"
  have c0: "committed ?w = empty_database" "connect_outcome ?env (connects ?w) = None"
    "uninterrupted ?env (ops ?w) 7"
    by (simp_all add: initial_world_def quiet_env_def faulty_env_def uninterrupted_def)
  from main_startup_ok[OF c0(2,3)] obtain c l w1 where
    s: "main_startup ?env ?w = (Inr (Some c, l), w1)" and o: "ops w1 = ops ?w + 7"
    by auto
  note a = main_startup_InrD[OF s c0(1)]
  have inv: "loop_inv l w1"
    using a by simp
  have "faults ?env (ops w1) = Some e"
    using o by (simp add: faulty_env_def initial_world_def)
  from loop_body_fault[OF loop_inv_D(1)[OF inv] this, of c l] obtain w2 where
    b: "loop_body ?env (Some c) (l, w1) = (Inl e, (l\<lparr>iteration := iteration l + 1\<rparr>, w2))"
      "ops w2 = ops w1 + 1"
    by auto
  then have "main_loop 1 ?env (Some c) (l, w1) = (Inl e, (l\<lparr>iteration := iteration l + 1\<rparr>, w2))"
    by simp
  moreover have "ops w2 = 8"
    using b(2) o by (simp add: initial_world_def)
  ultimately show ?thesis
    using s a by auto
qed

theorem interrupt_exits_cleanly_witness:
  "\<exists>w'. main 1 (faulty_env 7 KeyboardInterrupt) (initial_world empty_database) = (Returned, w') \<and>
     exit_status (fst (main 1 (faulty_env 7 KeyboardInterrupt) (initial_world empty_database))) = Some 0 \<and>
     \<not> conn_open w' \<and> ops w' = 8 \<and>
     last (trace w') = Log INFO (Msg_final_stats 20 0)"
proof -
  from faulty_run[of KeyboardInterrupt] obtain c l w1 l' w2 where
    r: "main_startup (faulty_env 7 KeyboardInterrupt) (initial_world empty_database) = (Inr (Some c, l), w1)"
      "main_loop 1 (faulty_env 7 KeyboardInterrupt) (Some c) (l, w1) = (Inl KeyboardInterrupt, (l', w2))"
    and l': "total_products l' = 20" "total_sales l' = 0" "ops w2 = 8"
    by blast
  from interrupt_exits_cleanly [OF r] obtain w' where
    w': "main 1 (faulty_env 7 KeyboardInterrupt) (initial_world empty_database) = (Returned, w')"
      "\<not> conn_open w'"
      "new_events w2 w' = [Log INFO Msg_stopping, Log INFO Msg_connection_closed,
        Log INFO (Msg_final_stats (total_products l') (total_sales l'))]"
      "ops w' = ops w2"
    by auto
  have "last (trace w') = last (new_events w2 w')"
    using w'(3) unfolding new_events_def by (metis last_drop list.discI drop_eq_Nil not_le)
  then show ?thesis
    using w' l' by simp
qed

theorem loop_error_is_fatal_witness:
  "\<exists>w'. main 1 (faulty_env 7 (DatabaseError ''duplicate key'')) (initial_world empty_database)
       = (Uncaught (DatabaseError ''duplicate key''), w') \<and>
     exit_status (fst (main 1 (faulty_env 7 (DatabaseError ''duplicate key''))
       (initial_world empty_database))) = Some 1 \<and>
     \<not> conn_open w' \<and> ops w' = 8 \<and>
     main (1 + 4) (faulty_env 7 (DatabaseError ''duplicate key'')) (initial_world empty_database)
       = (Uncaught (DatabaseError ''duplicate key''), w')"
proof -
  let ?e = "DatabaseError ''duplicate key''"
  from faulty_run[of ?e] obtain c l w1 l' w2 where
    r: "main_startup (faulty_env 7 ?e) (initial_world empty_database) = (Inr (Some c, l), w1)"
      "main_loop 1 (faulty_env 7 ?e) (Some c) (l, w1) = (Inl ?e, (l', w2))"
    and o2: "ops w2 = 8"
    by blast
  have e: "is_Exception ?e" by simp
  from loop_error_is_fatal [OF r e] obtain w' where
    w': "main 1 (faulty_env 7 ?e) (initial_world empty_database) = (Uncaught ?e, w')"
      "\<not> conn_open w'" "ops w' = ops w2"
      "\<forall>m. main (1 + m) (faulty_env 7 ?e) (initial_world empty_database) =
         main 1 (faulty_env 7 ?e) (initial_world empty_database)"
    by auto
  from w'(4) have "main (1 + 4) (faulty_env 7 ?e) (initial_world empty_database) =
      main 1 (faulty_env 7 ?e) (initial_world empty_database)"
    by blast
  then show ?thesis
    using w' o2 by simp
qed


end
